theory Spec2Isabelle
  imports Complex_Main "HOL-Library.Log_Nat"
begin

section \<open>The float64 of Go: IEEE 754 binary64, round to nearest even\<close>

text \<open>
  A float64 is a signed finite magnitude, a signed infinity or a NaN. The sign is
  \<open>True\<close> for a set sign bit, so \<open>Finite True 0\<close> is the negative zero. An operation
  computes the exact rational result and rounds it to the nearest representable value,
  ties to the even significand, as the standard prescribes for the default rounding mode.
\<close>

datatype float64 = Finite bool rat | Infinite bool | NaN

definition ilog2 :: "rat \<Rightarrow> int" where
  \<comment> \<open>the binary exponent of a positive rational: \<open>2 powi ilog2 q \<le> q < 2 powi (ilog2 q + 1)\<close>\<close>
  "ilog2 q = (if 1 \<le> q then int (floorlog 2 (nat \<lfloor>q\<rfloor>)) - 1
              else - int (floorlog 2 (nat (\<lceil>1 / q\<rceil> - 1))))"

definition round_half_even :: "rat \<Rightarrow> int" where
  "round_half_even x =
     (let f = \<lfloor>x\<rfloor>; r = x - of_int f
      in if r < 1 / 2 then f
         else if 1 / 2 < r then f + 1
         else if even f then f else f + 1)"

definition quantum :: "rat \<Rightarrow> rat" where
  \<comment> \<open>the spacing of the binary64 values around \<open>q\<close>: 53 significant bits, and
      \<open>2 powi (- 1074)\<close> in the subnormal range\<close>
  "quantum q = 2 powi (max (ilog2 q - 52) (- 1074))"

definition round_mag :: "rat \<Rightarrow> rat" where
  "round_mag q = (if q = 0 then 0 else of_int (round_half_even (q / quantum q)) * quantum q)"

definition fround :: "bool \<Rightarrow> rat \<Rightarrow> float64" where
  \<comment> \<open>round the magnitude \<open>q\<close> with sign \<open>s\<close>; a rounded magnitude of \<open>2 ^ 1024\<close> or more
      overflows to the infinity\<close>
  "fround s q = (let v = round_mag q in if 2 ^ 1024 \<le> v then Infinite s else Finite s v)"

definition signed :: "bool \<Rightarrow> rat \<Rightarrow> rat" where
  "signed s m = (if s then - m else m)"

fun fmul :: "float64 \<Rightarrow> float64 \<Rightarrow> float64" where
  "fmul NaN _ = NaN"
| "fmul _ NaN = NaN"
| "fmul (Infinite s) (Infinite t) = Infinite (s \<noteq> t)"
| "fmul (Infinite s) (Finite t n) = (if n = 0 then NaN else Infinite (s \<noteq> t))"
| "fmul (Finite s m) (Infinite t) = (if m = 0 then NaN else Infinite (s \<noteq> t))"
| "fmul (Finite s m) (Finite t n) = fround (s \<noteq> t) (m * n)"

fun fdiv :: "float64 \<Rightarrow> float64 \<Rightarrow> float64" where
  "fdiv NaN _ = NaN"
| "fdiv _ NaN = NaN"
| "fdiv (Infinite s) (Infinite t) = NaN"
| "fdiv (Infinite s) (Finite t n) = Infinite (s \<noteq> t)"
| "fdiv (Finite s m) (Infinite t) = Finite (s \<noteq> t) 0"
| "fdiv (Finite s m) (Finite t n) =
     (if n = 0 then (if m = 0 then NaN else Infinite (s \<noteq> t))
      else fround (s \<noteq> t) (m / n))"

fun fadd :: "float64 \<Rightarrow> float64 \<Rightarrow> float64" where
  "fadd NaN _ = NaN"
| "fadd _ NaN = NaN"
| "fadd (Infinite s) (Infinite t) = (if s = t then Infinite s else NaN)"
| "fadd (Infinite s) (Finite t n) = Infinite s"
| "fadd (Finite s m) (Infinite t) = Infinite t"
| "fadd (Finite s m) (Finite t n) =
     (let x = signed s m + signed t n
      in if x = 0 then Finite (s \<and> t) 0 else fround (x < 0) \<bar>x\<bar>)"

fun fgt :: "float64 \<Rightarrow> float64 \<Rightarrow> bool" where
  \<comment> \<open>the comparison \<open>x > y\<close>; false when an operand is a NaN\<close>
  "fgt NaN _ = False"
| "fgt _ NaN = False"
| "fgt (Infinite s) (Infinite t) = (\<not> s \<and> t)"
| "fgt (Infinite s) (Finite t n) = (\<not> s)"
| "fgt (Finite s m) (Infinite t) = t"
| "fgt (Finite s m) (Finite t n) = (signed t n < signed s m)"

definition float64_of_int :: "int \<Rightarrow> float64" where
  \<comment> \<open>the conversion \<open>float64(i)\<close> of an integer\<close>
  "float64_of_int i = fround (i < 0) \<bar>of_int i\<bar>"

definition int64_of_float64 :: "float64 \<Rightarrow> int" where
  \<comment> \<open>the conversion \<open>int64(x)\<close>: truncation toward zero. Go leaves the result open when
      the value does not fit; the value here is the one of amd64 (the smallest int64).\<close>
  "int64_of_float64 x =
     (case x of
        Finite s m \<Rightarrow>
          (let i = (if s then - \<lfloor>m\<rfloor> else \<lfloor>m\<rfloor>)
           in if - (2 ^ 63) \<le> i \<and> i < 2 ^ 63 then i else - (2 ^ 63))
      | Infinite s \<Rightarrow> - (2 ^ 63)
      | NaN \<Rightarrow> - (2 ^ 63))"

fun math_Round :: "float64 \<Rightarrow> float64" where
  \<comment> \<open>\<open>math.Round\<close>: the nearest integer, halves away from zero; zeros, infinities and
      NaN are returned as they are\<close>
  "math_Round (Finite s m) = Finite s (of_int \<lfloor>m + 1 / 2\<rfloor>)"
| "math_Round (Infinite s) = Infinite s"
| "math_Round NaN = NaN"

section \<open>The cached data and the conversion\<close>

record Data =
  Success :: bool
  Timestamp :: int
  Base :: string
  Date :: string
  Rates :: "string \<rightharpoonup> float64"

definition rate :: "Data \<Rightarrow> string \<Rightarrow> float64" where
  \<comment> \<open>\<open>data.Rates[c]\<close>: indexing a Go map with an absent key gives the zero value\<close>
  "rate data c = (case Rates data c of None \<Rightarrow> Finite False 0 | Some r \<Rightarrow> r)"

definition convert :: "Data \<Rightarrow> string \<Rightarrow> string \<Rightarrow> float64 \<Rightarrow> float64" where
  "convert data curr1 curr2 amount =
     (let euroAmount = fdiv amount (rate data curr1)
      in fmul euroAmount (rate data curr2))"

definition roundTo2Decimals :: "float64 \<Rightarrow> float64" where
  "roundTo2Decimals x = fdiv (math_Round (fmul x (Finite False 100))) (Finite False 100)"

section \<open>Durations\<close>

text \<open>
  A \<open>time.Duration\<close> is an int64 count of nanoseconds. \<open>time.Since (time.Unix ts 0)\<close>
  is the wall clock minus \<open>ts\<close> seconds, and \<open>Sub\<close> saturates at the smallest and the
  largest duration. The wall clock, in nanoseconds since the Unix epoch, is an argument.
  Integer division in Go truncates toward zero and the remainder takes the sign of the
  dividend.
\<close>

definition Hour :: int where
  "Hour = 3600000000000"

definition minDuration :: int where
  "minDuration = - (2 ^ 63)"

definition maxDuration :: int where
  "maxDuration = 2 ^ 63 - 1"

definition Since :: "int \<Rightarrow> int \<Rightarrow> int" where
  "Since now ts = max minDuration (min maxDuration (now - ts * 1000000000))"

definition quo :: "int \<Rightarrow> int \<Rightarrow> int" where
  "quo a b = sgn a * sgn b * (\<bar>a\<bar> div \<bar>b\<bar>)"

definition rem :: "int \<Rightarrow> int \<Rightarrow> int" where
  "rem a b = a - b * quo a b"

definition Hours :: "int \<Rightarrow> float64" where
  "Hours d =
     (let hour = quo d Hour; nsec = rem d Hour
      in fadd (float64_of_int hour) (fdiv (float64_of_int nsec) (Finite False 3600000000000)))"

section \<open>Outcomes of a call\<close>

text \<open>
  A call returns, or panics, or ends the process (\<open>log.Fatalln\<close> prints and calls
  \<open>os.Exit 1\<close>). A failed type assertion \<open>x.(T)\<close> panics with the dynamic type of \<open>x\<close>
  and the asserted type \<open>T\<close>; the message of the run time names these two types only.
\<close>

datatype go_type = T_nil | T_bool | T_float64 | T_string | T_slice | T_map

datatype panic =
    InterfaceConversion go_type go_type
  | NilPointerDereference
  | IndexOutOfRange

datatype 'a outcome = Return 'a | Panic panic | Exit nat

definition bind_outcome :: "'a outcome \<Rightarrow> ('a \<Rightarrow> 'b outcome) \<Rightarrow> 'b outcome" where
  "bind_outcome x f = (case x of Return v \<Rightarrow> f v | Panic p \<Rightarrow> Panic p | Exit c \<Rightarrow> Exit c)"

section \<open>Decoding the document of the rate provider\<close>

text \<open>
  \<open>json.Unmarshal\<close> into an empty interface gives \<open>nil\<close>, a \<open>bool\<close>, a \<open>float64\<close>, a
  \<open>string\<close>, a slice or a \<open>map[string]interface{}\<close>. The entries of a map are a list
  of pairs with one entry for each key. Indexing a map with an absent key gives \<open>nil\<close>.
\<close>

datatype json =
    JNull
  | JBool bool
  | JNumber float64
  | JString string
  | JArray "json list"
  | JObject "(string \<times> json) list"

fun dyn_type :: "json \<Rightarrow> go_type" where
  "dyn_type JNull = T_nil"
| "dyn_type (JBool b) = T_bool"
| "dyn_type (JNumber x) = T_float64"
| "dyn_type (JString s) = T_string"
| "dyn_type (JArray xs) = T_slice"
| "dyn_type (JObject m) = T_map"

definition index_map :: "(string \<times> json) list \<Rightarrow> string \<Rightarrow> json" where
  "index_map m k = (case map_of m k of None \<Rightarrow> JNull | Some v \<Rightarrow> v)"

definition assert_bool :: "json \<Rightarrow> bool outcome" where
  "assert_bool v = (case v of JBool b \<Rightarrow> Return b
                    | _ \<Rightarrow> Panic (InterfaceConversion (dyn_type v) T_bool))"

definition assert_float64 :: "json \<Rightarrow> float64 outcome" where
  "assert_float64 v = (case v of JNumber x \<Rightarrow> Return x
                       | _ \<Rightarrow> Panic (InterfaceConversion (dyn_type v) T_float64))"

definition assert_string :: "json \<Rightarrow> string outcome" where
  "assert_string v = (case v of JString s \<Rightarrow> Return s
                      | _ \<Rightarrow> Panic (InterfaceConversion (dyn_type v) T_string))"

definition assert_map :: "json \<Rightarrow> (string \<times> json) list outcome" where
  "assert_map v = (case v of JObject m \<Rightarrow> Return m
                   | _ \<Rightarrow> Panic (InterfaceConversion (dyn_type v) T_map))"

fun rates_loop :: "(string \<times> json) list \<Rightarrow> (string \<rightharpoonup> float64) \<Rightarrow> (string \<rightharpoonup> float64) outcome" where
  "rates_loop [] rates = Return rates"
| "rates_loop ((key, value) # rest) rates =
     bind_outcome (assert_float64 value) (\<lambda>x. rates_loop rest (rates(key \<mapsto> x)))"

text \<open>
  What the program takes from outside: the decoder \<open>json.Unmarshal\<close> (\<open>None\<close> for an
  error), \<open>strconv.ParseFloat\<close> (\<open>None\<close> for an error), the printing of a time, and
  the answer of the provider to each request, counted from zero.
\<close>

datatype http_get = GetError | GetBody string

record world =
  unmarshal :: "string \<Rightarrow> json option"
  parseFloat :: "string \<Rightarrow> float64 option"
  formatTime :: "int \<Rightarrow> string"
  upstream :: "nat \<Rightarrow> http_get"

definition decodeJSON :: "world \<Rightarrow> string \<Rightarrow> Data outcome" where
  "decodeJSON W b =
     (case unmarshal W b of
        None \<Rightarrow> Exit 1
      | Some i \<Rightarrow>
          bind_outcome (assert_map i) (\<lambda>m.
          bind_outcome (assert_bool (index_map m ''success'')) (\<lambda>success.
          bind_outcome (assert_float64 (index_map m ''timestamp'')) (\<lambda>timestamp.
          bind_outcome (assert_string (index_map m ''base'')) (\<lambda>base.
          bind_outcome (assert_string (index_map m ''date'')) (\<lambda>date.
          bind_outcome (assert_map (index_map m ''rates'')) (\<lambda>ratesInterface.
          bind_outcome (rates_loop ratesInterface Map.empty) (\<lambda>rates.
          Return \<lparr>Success = success, Timestamp = int64_of_float64 timestamp,
                  Base = base, Date = date, Rates = rates\<rparr>))))))))"

section \<open>Fetching and refreshing\<close>

text \<open>
  \<open>getData\<close> sends one request. \<open>GetError\<close> is a failed \<open>http.Get\<close> that leaves no
  response: the error is logged and the deferred \<open>resp.Body.Close()\<close> reads through the
  nil response, a panic. \<open>GetBody\<close> carries what \<open>ioutil.ReadAll\<close> returned; an error
  of \<open>ReadAll\<close> is logged only. The number of requests sent so far is threaded
  through, and the lines written to the log are left out.
\<close>

definition getData :: "world \<Rightarrow> nat \<Rightarrow> string outcome \<times> nat" where
  "getData W k =
     (case upstream W k of
        GetError \<Rightarrow> (Panic NilPointerDereference, Suc k)
      | GetBody body \<Rightarrow> (Return body, Suc k))"

definition update :: "world \<Rightarrow> int \<Rightarrow> Data \<Rightarrow> nat \<Rightarrow> Data outcome \<times> nat" where
  "update W now data k =
     (let timePassed = Since now (Timestamp data)
      in if fgt (Hours timePassed) (Finite False 1)
         then (case getData W k of
                 (Return b, k') \<Rightarrow> (decodeJSON W b, k')
               | (Panic p, k') \<Rightarrow> (Panic p, k')
               | (Exit c, k') \<Rightarrow> (Exit c, k'))
         else (Return data, k))"

section \<open>The handler of /convert/\<close>

text \<open>
  The handler refreshes the global \<open>data\<close>, reads the first value of each of the query
  parameters \<open>from\<close>, \<open>to\<close> and \<open>value\<close> (indexing an absent parameter panics),
  and answers with a redirect or with the rendered page. Executing the template is left
  to the caller: the response names the template and carries the page.
\<close>

record Page =
  From :: string
  To :: string
  Value :: float64
  Result :: float64
  Time :: string

record request =
  query_from :: "string list"
  query_to :: "string list"
  query_value :: "string list"

datatype response = Redirect string nat | Render string Page

record server =
  data :: Data
  requests :: nat

definition index0 :: "'a list \<Rightarrow> 'a outcome" where
  \<comment> \<open>\<open>xs[0]\<close>\<close>
  "index0 xs = (case xs of [] \<Rightarrow> Panic IndexOutOfRange | x # rest \<Rightarrow> Return x)"

definition convertHandler :: "world \<Rightarrow> int \<Rightarrow> request \<Rightarrow> server \<Rightarrow> response outcome \<times> server" where
  "convertHandler W now r st =
     (case update W now (data st) (requests st) of
        (Panic p, k) \<Rightarrow> (Panic p, st\<lparr>requests := k\<rparr>)
      | (Exit c, k) \<Rightarrow> (Exit c, st\<lparr>requests := k\<rparr>)
      | (Return d, k) \<Rightarrow>
          (bind_outcome (index0 (query_from r)) (\<lambda>from.
           bind_outcome (index0 (query_to r)) (\<lambda>to.
           bind_outcome (index0 (query_value r)) (\<lambda>v.
             (case parseFloat W v of
                None \<Rightarrow> Return (Redirect ''/'' 302)
              | Some value \<Rightarrow>
                  if Rates d from = None \<or> Rates d to = None
                  then Return (Redirect ''/'' 302)
                  else Return (Render ''convert''
                         \<lparr>From = from, To = to, Value = value,
                          Result = roundTo2Decimals (convert d from to value),
                          Time = formatTime W (Timestamp d)\<rparr>))))),
           \<lparr>data = d, requests = k\<rparr>))"

text \<open>
  The five required fields of a document have the dynamic types that \<open>decodeJSON\<close>
  asserts. A missing field or a JSON null reads as \<open>nil\<close>.
\<close>

definition fields_typed :: "(string \<times> json) list \<Rightarrow> bool" where
  "fields_typed m \<longleftrightarrow>
     dyn_type (index_map m ''success'') = T_bool \<and>
     dyn_type (index_map m ''timestamp'') = T_float64 \<and>
     dyn_type (index_map m ''base'') = T_string \<and>
     dyn_type (index_map m ''date'') = T_string \<and>
     dyn_type (index_map m ''rates'') = T_map"

section \<open>Requests served at the same time\<close>

text \<open>
  The server runs every request in a goroutine of its own, and the handler holds no
  lock. The statement \<open>data = data.update()\<close> copies the global \<open>data\<close> into the
  receiver of the call, runs \<open>update\<close> on the copy and then stores the result in the
  global. A goroutine is before the copy, between the copy and the store, or past the
  statement; a panic leaves the global as it is. The steps of different goroutines
  interleave freely.
\<close>

datatype goroutine = Ready | Called Data | Stored | Panicked

inductive step :: "world \<Rightarrow> int \<Rightarrow> server \<times> goroutine list \<Rightarrow> server \<times> goroutine list \<Rightarrow> bool"
  for W :: world and now :: int where
  call: "i < length gs \<Longrightarrow> gs ! i = Ready \<Longrightarrow>
           step W now (st, gs) (st, gs[i := Called (data st)])"
| store: "i < length gs \<Longrightarrow> gs ! i = Called d \<Longrightarrow>
           update W now d (requests st) = (Return d', k) \<Longrightarrow>
           step W now (st, gs) (\<lparr>data = d', requests = k\<rparr>, gs[i := Stored])"
| abort: "i < length gs \<Longrightarrow> gs ! i = Called d \<Longrightarrow>
           update W now d (requests st) = (r, k) \<Longrightarrow> (\<forall>d'. r \<noteq> Return d') \<Longrightarrow>
           step W now (st, gs) (st\<lparr>requests := k\<rparr>, gs[i := Panicked])"

section \<open>Sample data\<close>

text \<open>
  A snapshot fetched at 1600000000 seconds with the rates 1.2 and 0.9 (the nearest
  float64 values), documents of the provider stamped two hours later, and a world
  in which the provider answers every request with the complete document.
\<close>

definition usd_gbp :: Data where
  "usd_gbp = \<lparr>Success = True, Timestamp = 1600000000, Base = ''EUR'', Date = ''2020-09-13'',
              Rates = [''USD'' \<mapsto> fround False (6 / 5), ''GBP'' \<mapsto> fround False (9 / 10)]\<rparr>"

definition odd_rates :: Data where
  "odd_rates = \<lparr>Success = True, Timestamp = 1600000000, Base = ''EUR'', Date = ''2020-09-13'',
              Rates = [''EUR'' \<mapsto> Finite False 1, ''XTS'' \<mapsto> Finite False 10,
                       ''XXX'' \<mapsto> Finite False 0]\<rparr>"

definition document :: "bool \<Rightarrow> (string \<times> json) list" where
  "document ok =
     [(''success'', JBool ok), (''timestamp'', JNumber (Finite False 1600007200)),
      (''base'', JString ''EUR''), (''date'', JString ''2020-09-13''),
      (''rates'', JObject [(''USD'', JNumber (fround False (6 / 5))),
                          (''GBP'', JNumber (fround False (9 / 10)))])]"

definition document_without :: "string \<Rightarrow> (string \<times> json) list" where
  "document_without field = filter (\<lambda>kv. fst kv \<noteq> field) (document True)"

definition sample_world :: world where
  "sample_world =
     \<lparr>unmarshal = (\<lambda>b. if b = ''complete'' then Some (JObject (document True))
                     else if b = ''failure'' then Some (JObject (document False))
                     else if b = ''no rates'' then Some (JObject (document_without ''rates''))
                     else if b = ''no base'' then Some (JObject (document_without ''base''))
                     else if b = ''no date'' then Some (JObject (document_without ''date''))
                     else None),
      parseFloat = (\<lambda>s. if s = ''120'' then Some (Finite False 120)
                      else if s = ''-120'' then Some (Finite True 120)
                      else if s = ''Inf'' then Some (Infinite False)
                      else None),
      formatTime = (\<lambda>t. ''2020-09-13 12:26:40 +0000 UTC''),
      upstream = (\<lambda>k. GetBody ''complete'')\<rparr>"

definition sample_request :: "string \<Rightarrow> string \<Rightarrow> string \<Rightarrow> request" where
  "sample_request from to v = \<lparr>query_from = [from], query_to = [to], query_value = [v]\<rparr>"

section \<open>Rounding: the binary exponent and the nearest value\<close>

lemma ilog2_ge1:
  assumes "1 \<le> q"
  shows "2 powi (ilog2 q) \<le> q \<and> q < 2 powi (ilog2 q + 1)"
proof -
  define n where "n = nat \<lfloor>q\<rfloor>"
  define k where "k = floorlog 2 n"
  have fq: "1 \<le> \<lfloor>q\<rfloor>" using assms by (simp add: le_floor_iff)
  then have npos: "0 < n" by (simp add: n_def)
  have nq: "rat_of_nat n = of_int \<lfloor>q\<rfloor>" using fq by (simp add: n_def)
  from floorlog_bounds [of n 2] npos
  have lo: "2 ^ (k - 1) \<le> n" and hi: "n < 2 ^ k" by (simp_all add: k_def)
  from hi npos have kpos: "0 < k" by (cases k) auto
  have e: "ilog2 q = int (k - 1)" using assms kpos by (simp add: ilog2_def n_def k_def)
  have e1: "ilog2 q + 1 = int k" using e kpos by simp
  have "rat_of_nat (2 ^ (k - 1)) \<le> rat_of_nat n" using lo by (simp only: of_nat_le_iff)
  then have "(2::rat) ^ (k - 1) \<le> of_int \<lfloor>q\<rfloor>" by (simp add: nq)
  also have "\<dots> \<le> q" by simp
  finally have a: "2 powi (ilog2 q) \<le> q" by (simp add: e)
  have "Suc n \<le> 2 ^ k" using hi by simp
  then have "rat_of_nat (Suc n) \<le> rat_of_nat (2 ^ k)" by (simp only: of_nat_le_iff)
  then have "of_int \<lfloor>q\<rfloor> + 1 \<le> (2::rat) ^ k" by (simp add: nq)
  moreover have "q < of_int \<lfloor>q\<rfloor> + 1" by linarith
  ultimately have "q < 2 ^ k" by linarith
  then have b: "q < 2 powi (ilog2 q + 1)" by (simp add: e1)
  from a b show ?thesis by simp
qed

lemma ilog2_lt1:
  assumes "0 < q" "q < 1"
  shows "2 powi (ilog2 q) \<le> q \<and> q < 2 powi (ilog2 q + 1)"
proof -
  define c where "c = \<lceil>1 / q\<rceil>"
  define m where "m = nat (c - 1)"
  define k where "k = floorlog 2 m"
  have inv: "1 < 1 / q" using assms by simp
  then have c2: "2 \<le> c" unfolding c_def by linarith
  then have mpos: "0 < m" by (simp add: m_def)
  have mc: "rat_of_nat m = of_int c - 1" using c2 by (simp add: m_def)
  from floorlog_bounds [of m 2] mpos
  have lo: "2 ^ (k - 1) \<le> m" and hi: "m < 2 ^ k" by (simp_all add: k_def)
  from hi mpos have kpos: "0 < k" by (cases k) auto
  have e: "ilog2 q = - int k" using assms by (simp add: ilog2_def m_def k_def c_def)
  have "Suc m \<le> 2 ^ k" using hi by simp
  then have "rat_of_nat (Suc m) \<le> rat_of_nat (2 ^ k)" by (simp only: of_nat_le_iff)
  then have "of_int c \<le> (2::rat) ^ k" by (simp add: mc)
  moreover have "1 / q \<le> of_int c" unfolding c_def by linarith
  ultimately have "1 / q \<le> 2 ^ k" by linarith
  then have "1 / 2 ^ k \<le> q" using assms(1)
    by (simp add: field_simps)
  then have a: "2 powi (ilog2 q) \<le> q" by (simp add: e power_int_minus_divide)
  have "rat_of_nat (2 ^ (k - 1)) \<le> rat_of_nat m" using lo by (simp only: of_nat_le_iff)
  then have "(2::rat) ^ (k - 1) \<le> of_int c - 1" by (simp add: mc)
  moreover have "of_int c - 1 < 1 / q" unfolding c_def by linarith
  ultimately have "(2::rat) ^ (k - 1) < 1 / q" by linarith
  then have "q < 1 / 2 ^ (k - 1)" using assms(1)
    by (simp add: field_simps)
  moreover have "ilog2 q + 1 = - int (k - 1)" using e kpos by simp
  ultimately have b: "q < 2 powi (ilog2 q + 1)" by (simp add: power_int_minus_divide)
  from a b show ?thesis by simp
qed

lemma ilog2_bounds:
  assumes "0 < q"
  shows "2 powi (ilog2 q) \<le> q" and "q < 2 powi (ilog2 q + 1)"
  using ilog2_ge1 [of q] ilog2_lt1 [of q] assms by (cases "1 \<le> q"; simp)+

lemma powi2_less_iff: "(2::rat) powi a < 2 powi b \<longleftrightarrow> a < b"
proof
  assume h: "(2::rat) powi a < 2 powi b"
  show "a < b"
  proof (rule ccontr)
    assume "\<not> a < b"
    then have "b \<le> a" by simp
    then have "(2::rat) powi b \<le> 2 powi a" by (rule power_int_increasing) simp
    with h show False by simp
  qed
next
  assume "a < b"
  then show "(2::rat) powi a < 2 powi b" by (rule power_int_strict_increasing) simp
qed

lemma powi2_le_iff: "(2::rat) powi a \<le> 2 powi b \<longleftrightarrow> a \<le> b"
  using powi2_less_iff [of b a] by (simp add: not_less [symmetric])

lemma ilog2_ge:
  assumes "2 powi e \<le> q"
  shows "e \<le> ilog2 q"
proof -
  have "(0::rat) < 2 powi e" by simp
  with assms have qpos: "0 < q" by linarith
  have "(2::rat) powi e < 2 powi (ilog2 q + 1)" using assms ilog2_bounds(2) [OF qpos] by linarith
  then have "e < ilog2 q + 1" by (simp add: powi2_less_iff)
  then show ?thesis by simp
qed

lemma ilog2_lt:
  assumes "0 < q" "q < 2 powi e"
  shows "ilog2 q < e"
proof -
  have "(2::rat) powi (ilog2 q) < 2 powi e" using assms ilog2_bounds(1) [OF assms(1)] by linarith
  then show ?thesis by (simp add: powi2_less_iff)
qed


lemma round_half_even_error: "\<bar>of_int (round_half_even x) - x\<bar> \<le> 1 / 2"
proof -
  define f where "f = \<lfloor>x\<rfloor>"
  have b: "of_int f \<le> x" "x < of_int f + 1" unfolding f_def by linarith+
  have "round_half_even x = (if x - of_int f < 1 / 2 then f
          else if 1 / 2 < x - of_int f then f + 1
          else if even f then f else f + 1)"
    by (simp add: round_half_even_def Let_def f_def)
  with b show ?thesis by (auto simp add: abs_if)
qed

lemma round_half_even_le:
  assumes "x \<le> of_int n"
  shows "round_half_even x \<le> n"
proof (cases "x = of_int n")
  case True
  then show ?thesis by (simp add: round_half_even_def)
next
  case False
  with assms have "x < of_int n" by simp
  then have "\<lfloor>x\<rfloor> < n" by (simp add: floor_less_iff)
  then have "\<lfloor>x\<rfloor> + 1 \<le> n" by simp
  then show ?thesis by (auto simp add: round_half_even_def Let_def)
qed

lemma round_half_even_ge:
  assumes "of_int n \<le> x"
  shows "n \<le> round_half_even x"
proof -
  have "n \<le> \<lfloor>x\<rfloor>" using assms by (simp add: le_floor_iff)
  then show ?thesis by (auto simp add: round_half_even_def Let_def)
qed

lemma quantum_pos: "0 < quantum q"
  by (simp add: quantum_def)

lemma round_mag_error:
  "\<bar>round_mag q - q\<bar> \<le> quantum q / 2"
proof (cases "q = 0")
  case True
  then show ?thesis using quantum_pos [of q] by (simp add: round_mag_def)
next
  case False
  define u where "u = quantum q"
  have upos: "0 < u" by (simp add: u_def quantum_pos)
  have "\<bar>of_int (round_half_even (q / u)) - q / u\<bar> \<le> 1 / 2"
    by (rule round_half_even_error)
  then have "\<bar>of_int (round_half_even (q / u)) - q / u\<bar> * u \<le> 1 / 2 * u"
    using upos by (simp only: mult_le_cancel_right_pos)
  moreover have "\<bar>of_int (round_half_even (q / u)) - q / u\<bar> * u
      = \<bar>of_int (round_half_even (q / u)) * u - q\<bar>"
  proof -
    have "\<bar>of_int (round_half_even (q / u)) - q / u\<bar> * u
        = \<bar>(of_int (round_half_even (q / u)) - q / u) * u\<bar>"
      using upos by (simp add: abs_mult)
    also have "(of_int (round_half_even (q / u)) - q / u) * u
        = of_int (round_half_even (q / u)) * u - q"
      using upos by (simp add: algebra_simps)
    finally show ?thesis .
  qed
  ultimately show ?thesis using False by (simp add: round_mag_def u_def)
qed


lemma powi2_split:
  assumes "ue \<le> j"
  shows "(2::rat) powi j = of_int (2 ^ nat (j - ue)) * 2 powi ue"
proof -
  have "(2::rat) powi j = 2 powi ((j - ue) + ue)" by simp
  also have "\<dots> = 2 powi (j - ue) * 2 powi ue" by (rule power_int_add) simp
  also have "(2::rat) powi (j - ue) = 2 ^ nat (j - ue)"
    using assms by (simp add: power_int_nonneg_exp)
  finally show ?thesis by simp
qed

lemma round_mag_scaled:
  assumes "q \<noteq> 0"
  shows "round_mag q = of_int (round_half_even (q / quantum q)) * quantum q"
  using assms by (simp add: round_mag_def)

lemma round_mag_le:
  assumes "0 < q" and "q \<le> of_int N * 2 powi j" and "N < 2 ^ 53" and "- 1074 \<le> j"
  shows "round_mag q \<le> of_int N * 2 powi j"
proof -
  define ue where "ue = max (ilog2 q - 52) (- 1074)"
  have u: "quantum q = 2 powi ue" by (simp add: quantum_def ue_def)
  have upos: "(0::rat) < 2 powi ue" by simp
  have "rat_of_int N < of_int (2 ^ 53)" using assms(3) by (simp only: of_int_less_iff)
  then have "rat_of_int N * 2 powi j < 2 ^ 53 * 2 powi j" by simp
  also have "(2::rat) ^ 53 * 2 powi j = 2 powi (53 + j)"
    by (subst power_int_add) simp_all
  finally have "q < 2 powi (53 + j)" using assms(2) by linarith
  then have "ilog2 q < 53 + j" using assms(1) by (rule ilog2_lt [rotated])
  then have le: "ue \<le> j" using assms(4) by (simp add: ue_def)
  define M where "M = N * 2 ^ nat (j - ue)"
  have c: "rat_of_int N * 2 powi j = of_int M * 2 powi ue"
    by (simp add: M_def powi2_split [OF le])
  have "q / 2 powi ue \<le> of_int M"
    using assms(2) upos by (simp add: c pos_divide_le_eq)
  then have "round_half_even (q / 2 powi ue) \<le> M" by (rule round_half_even_le)
  then have "rat_of_int (round_half_even (q / 2 powi ue)) \<le> of_int M" by (simp only: of_int_le_iff)
  then have "rat_of_int (round_half_even (q / 2 powi ue)) * 2 powi ue \<le> of_int M * 2 powi ue"
    using upos by (simp only: mult_le_cancel_right_pos)
  then show ?thesis using assms(1) by (simp add: round_mag_scaled u c)
qed

lemma round_mag_ge:
  assumes "0 < N" and "N < 2 ^ 53" and "- 1074 \<le> j" and "of_int N * 2 powi j \<le> q"
  shows "of_int N * 2 powi j \<le> round_mag q"
proof -
  define ue where "ue = max (ilog2 q - 52) (- 1074)"
  have u: "quantum q = 2 powi ue" by (simp add: quantum_def ue_def)
  have upos: "(0::rat) < 2 powi ue" by simp
  have "(0::rat) < of_int N * 2 powi j" using assms(1) by simp
  with assms(4) have qpos: "0 < q" by linarith
  show ?thesis
  proof (cases "ue \<le> j")
    case True
    define M where "M = N * 2 ^ nat (j - ue)"
    have c: "rat_of_int N * 2 powi j = of_int M * 2 powi ue"
      by (simp add: M_def powi2_split [OF True])
    have "of_int M \<le> q / 2 powi ue"
      using assms(4) upos by (simp add: c pos_le_divide_eq)
    then have "M \<le> round_half_even (q / 2 powi ue)" by (rule round_half_even_ge)
    then have "rat_of_int M \<le> of_int (round_half_even (q / 2 powi ue))" by (simp only: of_int_le_iff)
    then have "of_int M * 2 powi ue \<le> rat_of_int (round_half_even (q / 2 powi ue)) * 2 powi ue"
      using upos by (simp only: mult_le_cancel_right_pos)
    then show ?thesis using qpos by (simp add: round_mag_scaled u c)
  next
    case False
    then have ue: "ue = ilog2 q - 52" and big: "j + 53 \<le> ue + 52"
      using assms(3) by (simp_all add: ue_def)
    have e: "(2::rat) powi (ue + 52) = of_int (2 ^ 52) * 2 powi ue"
      using powi2_split [of ue "ue + 52"] by simp
    have "2 powi (ue + 52) \<le> q" using ilog2_bounds(1) [OF qpos] by (simp add: ue)
    then have "of_int (2 ^ 52) \<le> q / 2 powi ue"
      using upos by (simp only: e pos_le_divide_eq)
    then have "2 ^ 52 \<le> round_half_even (q / 2 powi ue)" by (rule round_half_even_ge)
    then have "rat_of_int (2 ^ 52) \<le> of_int (round_half_even (q / 2 powi ue))" by (simp only: of_int_le_iff)
    then have "of_int (2 ^ 52) * 2 powi ue \<le> rat_of_int (round_half_even (q / 2 powi ue)) * 2 powi ue"
      using upos by (simp only: mult_le_cancel_right_pos)
    then have r: "2 powi (ue + 52) \<le> round_mag q" using qpos by (simp only: round_mag_scaled u e)
    have "rat_of_int N < of_int (2 ^ 53)" using assms(2) by (simp only: of_int_less_iff)
    then have "rat_of_int N * 2 powi j < 2 ^ 53 * 2 powi j" by simp
    also have "(2::rat) ^ 53 * 2 powi j = 2 powi (53 + j)"
      by (subst power_int_add) simp_all
    also have "\<dots> \<le> 2 powi (ue + 52)" using big by (simp add: powi2_le_iff)
    finally show ?thesis using r by linarith
  qed
qed

lemma round_mag_exact:
  assumes "0 < N" and "N < 2 ^ 53" and "- 1074 \<le> j"
  shows "round_mag (of_int N * 2 powi j) = of_int N * 2 powi j"
proof -
  have "(0::rat) < of_int N * 2 powi j" using assms(1) by simp
  then have "round_mag (of_int N * 2 powi j) \<le> of_int N * 2 powi j"
    using assms by (intro round_mag_le) simp_all
  moreover have "of_int N * 2 powi j \<le> round_mag (of_int N * 2 powi j)"
    using assms by (intro round_mag_ge) simp_all
  ultimately show ?thesis by simp
qed

lemma round_mag_nonneg:
  assumes "0 \<le> q"
  shows "0 \<le> round_mag q"
proof (cases "q = 0")
  case True
  then show ?thesis by (simp add: round_mag_def)
next
  case False
  with assms have "0 \<le> q / quantum q" using quantum_pos [of q] by simp
  then have "0 \<le> round_half_even (q / quantum q)"
    using round_half_even_ge [of 0 "q / quantum q"] by simp
  then show ?thesis using False quantum_pos [of q] by (simp add: round_mag_def)
qed

section \<open>The hour count of a duration\<close>

lemma fround_Finite:
  assumes "round_mag q < 2 ^ 1024"
  shows "fround s q = Finite s (round_mag q)"
  using assms by (simp add: fround_def)

lemma round_mag_0: "round_mag 0 = 0"
  by (simp add: round_mag_def)

lemma round_mag_int_exact:
  assumes "0 \<le> N" and "N < 2 ^ 53"
  shows "round_mag (of_int N) = of_int N"
proof (cases "N = 0")
  case True
  then show ?thesis by (simp add: round_mag_0)
next
  case False
  with assms have "0 < N" by simp
  from round_mag_exact [OF this assms(2), of 0] show ?thesis by simp
qed

lemma float64_of_int_exact:
  assumes "\<bar>i\<bar> < 2 ^ 53"
  shows "float64_of_int i = Finite (i < 0) \<bar>of_int i\<bar>"
proof -
  have "round_mag (of_int \<bar>i\<bar>) = of_int \<bar>i\<bar>"
    using assms by (intro round_mag_int_exact) simp_all
  then have r: "round_mag \<bar>rat_of_int i\<bar> = \<bar>rat_of_int i\<bar>" by simp
  have "rat_of_int \<bar>i\<bar> < of_int (2 ^ 53)" using assms by (simp only: of_int_less_iff)
  also have "rat_of_int (2 ^ 53) < 2 ^ 1024" by simp
  finally have "round_mag \<bar>rat_of_int i\<bar> < 2 ^ 1024" by (simp add: r)
  from fround_Finite [OF this] show ?thesis by (simp add: float64_of_int_def r)
qed

lemma fgt_one_fround:
  assumes "0 \<le> q"
  shows "fgt (fround s q) (Finite False 1) \<longleftrightarrow> \<not> s \<and> 1 < round_mag q"
  using round_mag_nonneg [OF assms] by (auto simp add: fround_def Let_def signed_def)

lemma fgt_one_fadd:
  "fgt (fadd (Finite s m) (Finite t n)) (Finite False 1) \<longleftrightarrow>
     0 < signed s m + signed t n \<and> 1 < round_mag (signed s m + signed t n)"
proof -
  define x where "x = signed s m + signed t n"
  have "fgt (fadd (Finite s m) (Finite t n)) (Finite False 1) \<longleftrightarrow>
      x \<noteq> 0 \<and> fgt (fround (x < 0) \<bar>x\<bar>) (Finite False 1)"
    by (simp add: x_def Let_def signed_def)
  also have "\<dots> \<longleftrightarrow> x \<noteq> 0 \<and> \<not> x < 0 \<and> 1 < round_mag \<bar>x\<bar>"
    by (simp add: fgt_one_fround)
  also have "\<dots> \<longleftrightarrow> 0 < x \<and> 1 < round_mag x"
    by (auto simp add: abs_if)
  finally show ?thesis by (simp add: x_def)
qed

lemma quo_rem_nonneg:
  assumes "0 \<le> d"
  shows "quo d Hour = d div Hour" and "rem d Hour = d mod Hour"
proof -
  show q: "quo d Hour = d div Hour"
    using assms by (cases "d = 0") (simp_all add: quo_def Hour_def)
  show "rem d Hour = d mod Hour"
    by (simp add: rem_def q minus_mult_div_eq_mod)
qed

lemma quo_rem_neg:
  assumes "d < 0"
  shows "quo d Hour = - ((- d) div Hour)" and "rem d Hour = - ((- d) mod Hour)"
proof -
  show q: "quo d Hour = - ((- d) div Hour)"
    using assms by (simp add: quo_def Hour_def)
  have "rem d Hour = - ((- d) - Hour * ((- d) div Hour))"
    by (simp add: rem_def q algebra_simps)
  then show "rem d Hour = - ((- d) mod Hour)"
    by (simp only: minus_mult_div_eq_mod)
qed

lemma quo_rem_facts:
  shows "d = quo d Hour * Hour + rem d Hour"
    and "\<bar>rem d Hour\<bar> < Hour"
    and "\<bar>quo d Hour\<bar> \<le> \<bar>d\<bar>"
    and "0 \<le> d \<Longrightarrow> 0 \<le> quo d Hour \<and> 0 \<le> rem d Hour"
    and "d \<le> 0 \<Longrightarrow> quo d Hour \<le> 0 \<and> rem d Hour \<le> 0"
proof -
  have "\<exists>q r. quo d Hour = q \<and> rem d Hour = r \<and> d = q * 3600000000000 + r
      \<and> \<bar>r\<bar> < 3600000000000 \<and> (0 \<le> d \<longrightarrow> 0 \<le> r) \<and> (d \<le> 0 \<longrightarrow> r \<le> 0)"
  proof (cases "0 \<le> d")
    case True
    have "d = (d div Hour) * 3600000000000 + d mod Hour" by (simp add: Hour_def)
    moreover have "0 \<le> d mod Hour" "d mod Hour < 3600000000000" by (simp_all add: Hour_def)
    ultimately show ?thesis unfolding quo_rem_nonneg [OF True] using True by auto
  next
    case False
    then have neg: "d < 0" by simp
    have "- d = ((- d) div Hour) * 3600000000000 + (- d) mod Hour" by (simp add: Hour_def)
    then have "d = (- ((- d) div Hour)) * 3600000000000 + (- ((- d) mod Hour))" by linarith
    moreover have "0 \<le> (- d) mod Hour" "(- d) mod Hour < 3600000000000" by (simp_all add: Hour_def)
    ultimately show ?thesis unfolding quo_rem_neg [OF neg] using neg by auto
  qed
  then obtain q r where q: "quo d Hour = q" and r: "rem d Hour = r"
    and d: "d = q * 3600000000000 + r" and b: "\<bar>r\<bar> < 3600000000000"
    and p: "0 \<le> d \<longrightarrow> 0 \<le> r" and n: "d \<le> 0 \<longrightarrow> r \<le> 0" by blast
  show "d = quo d Hour * Hour + rem d Hour" unfolding q r unfolding Hour_def by (rule d)
  show "\<bar>rem d Hour\<bar> < Hour" unfolding r unfolding Hour_def by (rule b)
  show "\<bar>quo d Hour\<bar> \<le> \<bar>d\<bar>" unfolding q using d b p n by linarith
  show "0 \<le> d \<Longrightarrow> 0 \<le> quo d Hour \<and> 0 \<le> rem d Hour" unfolding q r using d b p n by linarith
  show "d \<le> 0 \<Longrightarrow> quo d Hour \<le> 0 \<and> rem d Hour \<le> 0" unfolding q r using d b p n by linarith
qed

lemma Hours_gt_one_iff:
  assumes "minDuration \<le> d" and "d \<le> maxDuration"
  shows "fgt (Hours d) (Finite False 1) \<longleftrightarrow> Hour < d"
proof -
  define h where "h = quo d Hour"
  define n where "n = rem d Hour"
  note f = quo_rem_facts [of d, folded h_def n_def]
  have dh: "d = h * 3600000000000 + n" using f(1) by (simp add: Hour_def)
  have nb: "\<bar>n\<bar> < 3600000000000" using f(2) by (simp add: Hour_def)
  have range: "- 9223372036854775808 \<le> d" "d \<le> 9223372036854775807"
    using assms by (simp_all add: minDuration_def maxDuration_def)
  have hb: "\<bar>h\<bar> < 2 ^ 53" using dh nb range by simp
  have nb53: "\<bar>n\<bar> < 2 ^ 53" using nb by simp
  have a: "float64_of_int h = Finite (h < 0) \<bar>of_int h\<bar>"
    using hb by (rule float64_of_int_exact)
  have b0: "float64_of_int n = Finite (n < 0) \<bar>of_int n\<bar>"
    using nb53 by (rule float64_of_int_exact)
  define q where "q = \<bar>rat_of_int n\<bar> / 3600000000000"
  define w where "w = round_mag q"
  have q0: "0 \<le> q" by (simp add: q_def)
  have q1: "q \<le> 1"
  proof -
    have "rat_of_int \<bar>n\<bar> \<le> of_int 3600000000000" using nb by (simp only: of_int_le_iff)
    then show ?thesis by (simp add: q_def)
  qed
  have w0: "0 \<le> w" unfolding w_def using q0 by (rule round_mag_nonneg)
  have wz: "n = 0 \<Longrightarrow> w = 0" by (simp add: w_def q_def round_mag_0)
  have w1: "w \<le> 1"
  proof (cases "q = 0")
    case True
    then show ?thesis by (simp add: w_def round_mag_0)
  next
    case False
    with q0 have "0 < q" by simp
    from round_mag_le [OF this, of 1 0] q1 show ?thesis by (simp add: w_def)
  qed
  have "w < 2 ^ 1024"
  proof -
    have "(1::rat) < 2 ^ 1024" by simp
    with w1 show ?thesis by linarith
  qed
  then have "fround (n < 0) q = Finite (n < 0) w"
    unfolding w_def by (rule fround_Finite)
  then have b: "fdiv (Finite (n < 0) \<bar>of_int n\<bar>) (Finite False 3600000000000) = Finite (n < 0) w"
    by (simp add: q_def)
  define x where "x = signed (h < 0) \<bar>of_int h\<bar> + signed (n < 0) w"
  have xh: "x = of_int h + (if n < 0 then - w else w)"
    by (simp add: x_def signed_def abs_if)
  have "Hours d = fadd (Finite (h < 0) \<bar>of_int h\<bar>) (Finite (n < 0) w)"
    by (simp only: Hours_def Let_def h_def [symmetric] n_def [symmetric] a b0 b)
  then have H: "fgt (Hours d) (Finite False 1) \<longleftrightarrow> 0 < x \<and> 1 < round_mag x"
    by (simp only: fgt_one_fadd x_def)
  show ?thesis
  proof (cases "Hour < d")
    case True
    then have big: "3600000000000 < d" by (simp add: Hour_def)
    then have "0 \<le> d" by simp
    from f(4) [OF this] have h0: "0 \<le> h" and n0: "0 \<le> n" by simp_all
    have h1: "1 \<le> h" using dh nb big by linarith
    define e where "e = (2::rat) powi (- 42)"
    have e: "e = 1 / 4398046511104" by (simp add: e_def)
    have "1 + e \<le> x"
    proof (cases "n = 0")
      case True
      with dh big have "2 \<le> h" by linarith
      then have "rat_of_int 2 \<le> of_int h" by (simp only: of_int_le_iff)
      then show ?thesis using True wz by (simp add: xh e)
    next
      case False
      with n0 have "1 \<le> n" by simp
      then have "rat_of_int 1 \<le> of_int n" by (simp only: of_int_le_iff)
      then have "e \<le> q" using n0 by (simp add: q_def e)
      then have "rat_of_int 1 * 2 powi (- 42) \<le> q" by (simp add: e_def)
      then have "rat_of_int 1 * 2 powi (- 42) \<le> round_mag q"
        by (intro round_mag_ge) simp_all
      then have "e \<le> w" by (simp add: e_def w_def)
      moreover have "rat_of_int 1 \<le> of_int h" using h1 by (simp only: of_int_le_iff)
      ultimately show ?thesis using n0 by (simp add: xh)
    qed
    moreover have "rat_of_int (2 ^ 42 + 1) * 2 powi (- 42) = 1 + e" by (simp add: e)
    ultimately have "rat_of_int (2 ^ 42 + 1) * 2 powi (- 42) \<le> x" by simp
    then have "rat_of_int (2 ^ 42 + 1) * 2 powi (- 42) \<le> round_mag x"
      by (intro round_mag_ge) simp_all
    then have "1 + e \<le> round_mag x" using \<open>rat_of_int (2 ^ 42 + 1) * 2 powi (- 42) = 1 + e\<close> by simp
    moreover have "0 < e" by (simp add: e)
    ultimately have "1 < round_mag x" by linarith
    moreover have "0 < x" using \<open>1 + e \<le> x\<close> \<open>0 < e\<close> by linarith
    ultimately show ?thesis using H True by simp
  next
    case False
    then have small: "d \<le> 3600000000000" by (simp add: Hour_def)
    have "x \<le> 1"
    proof (cases "d < 0")
      case True
      then have "d \<le> 0" by simp
      from f(5) [OF this] have "h \<le> 0" and n0: "n \<le> 0" by simp_all
      then have "rat_of_int h \<le> of_int 0" by (simp only: of_int_le_iff)
      then show ?thesis using w0 wz n0 by (cases "n = 0") (simp_all add: xh)
    next
      case False
      then have "0 \<le> d" by simp
      from f(4) [OF this] have h0: "0 \<le> h" and n0: "0 \<le> n" by simp_all
      show ?thesis
      proof (cases "h = 0")
        case True
        then show ?thesis using n0 w1 by (simp add: xh)
      next
        case False
        with h0 dh nb small n0 have "h = 1 \<and> n = 0" by linarith
        then show ?thesis using wz by (simp add: xh)
      qed
    qed
    have "\<not> (0 < x \<and> 1 < round_mag x)"
    proof
      assume c: "0 < x \<and> 1 < round_mag x"
      then have "0 < x" by simp
      from round_mag_le [OF this, of 1 0] \<open>x \<le> 1\<close> have "round_mag x \<le> 1" by simp
      with c show False by simp
    qed
    then show ?thesis using H False by simp
  qed
qed

section \<open>Refreshing and decoding, case by case\<close>

lemma Since_range: "minDuration \<le> Since now ts" "Since now ts \<le> maxDuration"
  by (simp_all add: Since_def minDuration_def maxDuration_def)

lemma Since_gt_Hour_iff: "Hour < Since now ts \<longleftrightarrow> Hour < now - ts * 1000000000"
  by (simp add: Since_def minDuration_def maxDuration_def Hour_def max_def min_def)

lemma stale_iff:
  "fgt (Hours (Since now ts)) (Finite False 1) \<longleftrightarrow> Hour < now - ts * 1000000000"
  using Hours_gt_one_iff [OF Since_range] by (simp only: Since_gt_Hour_iff)

lemma update_fresh:
  assumes "now - Timestamp s * 1000000000 \<le> Hour"
  shows "update W now s k = (Return s, k)"
  using assms by (simp add: update_def stale_iff)

lemma update_stale:
  assumes "Hour < now - Timestamp s * 1000000000"
  shows "update W now s k =
    (case upstream W k of
       GetError \<Rightarrow> (Panic NilPointerDereference, Suc k)
     | GetBody b \<Rightarrow> (decodeJSON W b, Suc k))"
proof -
  have "update W now s k =
      (case getData W k of
         (Return b, k') \<Rightarrow> (decodeJSON W b, k')
       | (Panic p, k') \<Rightarrow> (Panic p, k')
       | (Exit c, k') \<Rightarrow> (Exit c, k'))"
    using assms by (simp add: update_def stale_iff)
  then show ?thesis by (simp add: getData_def split: http_get.split)
qed

lemma assert_bool_Return: "assert_bool v = Return x \<longleftrightarrow> v = JBool x"
  by (cases v) (simp_all add: assert_bool_def)

lemma assert_float64_Return: "assert_float64 v = Return x \<longleftrightarrow> v = JNumber x"
  by (cases v) (simp_all add: assert_float64_def)

lemma assert_string_Return: "assert_string v = Return x \<longleftrightarrow> v = JString x"
  by (cases v) (simp_all add: assert_string_def)

lemma assert_map_Return: "assert_map v = Return x \<longleftrightarrow> v = JObject x"
  by (cases v) (simp_all add: assert_map_def)

lemma assert_bool_cases:
  "(\<exists>x. assert_bool v = Return x) \<or> assert_bool v = Panic (InterfaceConversion (dyn_type v) T_bool)"
  by (cases v) (simp_all add: assert_bool_def)

lemma assert_float64_cases:
  "(\<exists>x. assert_float64 v = Return x) \<or> assert_float64 v = Panic (InterfaceConversion (dyn_type v) T_float64)"
  by (cases v) (simp_all add: assert_float64_def)

lemma assert_string_cases:
  "(\<exists>x. assert_string v = Return x) \<or> assert_string v = Panic (InterfaceConversion (dyn_type v) T_string)"
  by (cases v) (simp_all add: assert_string_def)

lemma assert_map_cases:
  "(\<exists>x. assert_map v = Return x) \<or> assert_map v = Panic (InterfaceConversion (dyn_type v) T_map)"
  by (cases v) (simp_all add: assert_map_def)

lemma bind_Return [simp]: "bind_outcome (Return v) f = f v"
  by (simp add: bind_outcome_def)

lemma bind_Panic [simp]: "bind_outcome (Panic p) f = Panic p"
  by (simp add: bind_outcome_def)

lemma bind_Exit [simp]: "bind_outcome (Exit c) f = Exit c"
  by (simp add: bind_outcome_def)

lemma rates_loop_cases:
  "(\<exists>r. rates_loop kvs acc = Return r) \<or> (\<exists>t. rates_loop kvs acc = Panic (InterfaceConversion t T_float64))"
proof (induction kvs arbitrary: acc)
  case Nil
  then show ?case by simp
next
  case (Cons kv kvs)
  obtain key v where kv: "kv = (key, v)" by (cases kv)
  from assert_float64_cases [of v] show ?case
  proof
    assume "\<exists>x. assert_float64 v = Return x"
    then obtain x where "assert_float64 v = Return x" ..
    then have e: "rates_loop (kv # kvs) acc = rates_loop kvs (acc(key \<mapsto> x))"
      by (simp add: kv)
    show ?thesis unfolding e by (rule Cons.IH)
  next
    assume "assert_float64 v = Panic (InterfaceConversion (dyn_type v) T_float64)"
    then show ?thesis by (simp add: kv)
  qed
qed

text \<open>The decoder on a JSON object: it returns exactly when the five fields have their types
  and every rate is a number, and it panics on a failed type assertion otherwise.\<close>

lemma decodeJSON_object:
  assumes "unmarshal W b = Some (JObject m)"
  shows "decodeJSON W b =
          bind_outcome (assert_bool (index_map m ''success'')) (\<lambda>success.
          bind_outcome (assert_float64 (index_map m ''timestamp'')) (\<lambda>timestamp.
          bind_outcome (assert_string (index_map m ''base'')) (\<lambda>base.
          bind_outcome (assert_string (index_map m ''date'')) (\<lambda>date.
          bind_outcome (assert_map (index_map m ''rates'')) (\<lambda>ratesInterface.
          bind_outcome (rates_loop ratesInterface Map.empty) (\<lambda>rates.
          Return \<lparr>Success = success, Timestamp = int64_of_float64 timestamp,
                  Base = base, Date = date, Rates = rates\<rparr>))))))"
  using assms by (simp add: decodeJSON_def assert_map_def)

lemma decodeJSON_object_cases:
  assumes "unmarshal W b = Some (JObject m)"
  shows "(\<exists>s ts bs dt ri rs.
            index_map m ''success'' = JBool s \<and> index_map m ''timestamp'' = JNumber ts \<and>
            index_map m ''base'' = JString bs \<and> index_map m ''date'' = JString dt \<and>
            index_map m ''rates'' = JObject ri \<and> rates_loop ri Map.empty = Return rs \<and>
            decodeJSON W b = Return \<lparr>Success = s, Timestamp = int64_of_float64 ts,
                  Base = bs, Date = dt, Rates = rs\<rparr>)
         \<or> (\<exists>t u. decodeJSON W b = Panic (InterfaceConversion t u))"
proof -
  note D = decodeJSON_object [OF assms]
  from assert_bool_cases [of "index_map m ''success''"] show ?thesis
  proof
    assume "assert_bool (index_map m ''success'') = Panic (InterfaceConversion (dyn_type (index_map m ''success'')) T_bool)"
    then show ?thesis by (simp add: D)
  next
    assume "\<exists>x. assert_bool (index_map m ''success'') = Return x"
    then obtain s where s: "assert_bool (index_map m ''success'') = Return s" ..
    from assert_float64_cases [of "index_map m ''timestamp''"] show ?thesis
    proof
      assume "assert_float64 (index_map m ''timestamp'') = Panic (InterfaceConversion (dyn_type (index_map m ''timestamp'')) T_float64)"
      then show ?thesis by (simp add: D s)
    next
      assume "\<exists>x. assert_float64 (index_map m ''timestamp'') = Return x"
      then obtain ts where ts: "assert_float64 (index_map m ''timestamp'') = Return ts" ..
      from assert_string_cases [of "index_map m ''base''"] show ?thesis
      proof
        assume "assert_string (index_map m ''base'') = Panic (InterfaceConversion (dyn_type (index_map m ''base'')) T_string)"
        then show ?thesis by (simp add: D s ts)
      next
        assume "\<exists>x. assert_string (index_map m ''base'') = Return x"
        then obtain bs where bs: "assert_string (index_map m ''base'') = Return bs" ..
        from assert_string_cases [of "index_map m ''date''"] show ?thesis
        proof
          assume "assert_string (index_map m ''date'') = Panic (InterfaceConversion (dyn_type (index_map m ''date'')) T_string)"
          then show ?thesis by (simp add: D s ts bs)
        next
          assume "\<exists>x. assert_string (index_map m ''date'') = Return x"
          then obtain dt where dt: "assert_string (index_map m ''date'') = Return dt" ..
          from assert_map_cases [of "index_map m ''rates''"] show ?thesis
          proof
            assume "assert_map (index_map m ''rates'') = Panic (InterfaceConversion (dyn_type (index_map m ''rates'')) T_map)"
            then show ?thesis by (simp add: D s ts bs dt)
          next
            assume "\<exists>x. assert_map (index_map m ''rates'') = Return x"
            then obtain ri where ri: "assert_map (index_map m ''rates'') = Return ri" ..
            from rates_loop_cases [of ri Map.empty] show ?thesis
            proof
              assume "\<exists>t. rates_loop ri Map.empty = Panic (InterfaceConversion t T_float64)"
              then show ?thesis by (auto simp add: D s ts bs dt ri)
            next
              assume "\<exists>r. rates_loop ri Map.empty = Return r"
              then obtain rs where rs: "rates_loop ri Map.empty = Return rs" ..
              have "decodeJSON W b = Return \<lparr>Success = s, Timestamp = int64_of_float64 ts,
                  Base = bs, Date = dt, Rates = rs\<rparr>"
                by (simp add: D s ts bs dt ri rs)
              then show ?thesis
                using s ts bs dt ri rs
                by (simp only: assert_bool_Return assert_float64_Return assert_string_Return
                      assert_map_Return) blast
            qed
          qed
        qed
      qed
    qed
  qed
qed

lemma dyn_type_bool: "dyn_type v = T_bool \<longleftrightarrow> (\<exists>x. v = JBool x)"
  by (cases v) simp_all

lemma dyn_type_float64: "dyn_type v = T_float64 \<longleftrightarrow> (\<exists>x. v = JNumber x)"
  by (cases v) simp_all

lemma dyn_type_string: "dyn_type v = T_string \<longleftrightarrow> (\<exists>x. v = JString x)"
  by (cases v) simp_all

lemma dyn_type_map: "dyn_type v = T_map \<longleftrightarrow> (\<exists>x. v = JObject x)"
  by (cases v) simp_all

lemma decodeJSON_untyped:
  assumes "unmarshal W b = Some (JObject m)" and "\<not> fields_typed m"
  shows "\<exists>t u. decodeJSON W b = Panic (InterfaceConversion t u)"
proof -
  from decodeJSON_object_cases [OF assms(1)] show ?thesis
  proof
    assume "\<exists>s ts bs dt ri rs.
            index_map m ''success'' = JBool s \<and> index_map m ''timestamp'' = JNumber ts \<and>
            index_map m ''base'' = JString bs \<and> index_map m ''date'' = JString dt \<and>
            index_map m ''rates'' = JObject ri \<and> rates_loop ri Map.empty = Return rs \<and>
            decodeJSON W b = Return \<lparr>Success = s, Timestamp = int64_of_float64 ts,
                  Base = bs, Date = dt, Rates = rs\<rparr>"
    then have "fields_typed m" by (auto simp add: fields_typed_def)
    with assms(2) show ?thesis by simp
  qed
qed

lemma handler_after_update:
  assumes "update W now (data st) (requests st) = (Return d, k)"
    and "query_from r = from # fs" and "query_to r = to # ts" and "query_value r = v # vs"
  shows "convertHandler W now r st =
    ((case parseFloat W v of
        None \<Rightarrow> Return (Redirect ''/'' 302)
      | Some value \<Rightarrow>
          if Rates d from = None \<or> Rates d to = None
          then Return (Redirect ''/'' 302)
          else Return (Render ''convert''
                 \<lparr>From = from, To = to, Value = value,
                  Result = roundTo2Decimals (convert d from to value),
                  Time = formatTime W (Timestamp d)\<rparr>)),
     \<lparr>data = d, requests = k\<rparr>)"
  using assms by (simp add: convertHandler_def index0_def)

section \<open>The relative error of a rounding\<close>

lemma powi2_mult_lower:
  assumes "2 powi a \<le> x" and "2 powi b \<le> y"
  shows "(2::rat) powi (a + b) \<le> x * y"
proof -
  have "(0::rat) < 2 powi a" by (rule zero_less_power_int) simp
  with assms(1) have xpos: "0 \<le> x" by linarith
  have "(2::rat) powi (a + b) = 2 powi a * 2 powi b" by (rule power_int_add) simp
  also have "\<dots> \<le> x * y" using assms xpos by (intro mult_mono) simp_all
  finally show ?thesis .
qed

lemma powi2_mult_upper:
  assumes "0 \<le> x" and "0 \<le> y" and "x \<le> 2 powi a" and "y \<le> 2 powi b"
  shows "x * y \<le> (2::rat) powi (a + b)"
proof -
  have "x * y \<le> 2 powi a * 2 powi b" using assms by (intro mult_mono) simp_all
  also have "\<dots> = (2::rat) powi (a + b)" by (rule power_int_add [symmetric]) simp
  finally show ?thesis .
qed

lemma powi2_div_lower:
  assumes "2 powi a \<le> x" and "0 < y" and "y \<le> 2 powi b"
  shows "(2::rat) powi (a - b) \<le> x / y"
proof -
  have "(0::rat) < 2 powi a" by (rule zero_less_power_int) simp
  with assms(1) have xpos: "0 \<le> x" by linarith
  have "(2::rat) powi (a - b) = 2 powi a / 2 powi b" by (rule power_int_diff) simp
  also have "\<dots> \<le> x / y"
    by (rule frac_le) (simp_all add: assms xpos)
  finally show ?thesis .
qed

lemma powi2_div_upper:
  assumes "0 \<le> x" and "x \<le> 2 powi a" and "2 powi b \<le> y"
  shows "x / y \<le> (2::rat) powi (a - b)"
proof -
  have "x / y \<le> 2 powi a / 2 powi b" using assms by (intro frac_le) simp_all
  also have "\<dots> = (2::rat) powi (a - b)" by (rule power_int_diff [symmetric]) simp
  finally show ?thesis .
qed

lemma quantum_normal:
  assumes "2 powi (- 1022) \<le> q"
  shows "quantum q \<le> q / 2 ^ 52"
proof -
  have e: "- 1022 \<le> ilog2 q" using assms by (rule ilog2_ge)
  have "(0::rat) < 2 powi (- 1022)" by (rule zero_less_power_int) simp
  with assms have qpos: "0 < q" by linarith
  have "max (ilog2 q - 52) (- 1074) = ilog2 q - 52" using e by simp
  then have "quantum q = 2 powi (ilog2 q - 52)" by (simp only: quantum_def)
  also have "\<dots> = 2 powi (ilog2 q) / 2 powi 52" by (rule power_int_diff) simp
  also have "\<dots> \<le> q / 2 powi 52"
    using ilog2_bounds(1) [OF qpos] by (intro divide_right_mono) simp_all
  finally show ?thesis by simp
qed

lemma round_mag_relative:
  assumes "2 powi (- 1022) \<le> q"
  shows "q * (1 - 1 / 2 ^ 53) \<le> round_mag q" and "round_mag q \<le> q * (1 + 1 / 2 ^ 53)"
proof -
  have "\<bar>round_mag q - q\<bar> \<le> quantum q / 2" by (rule round_mag_error)
  moreover have "quantum q / 2 \<le> q / 2 ^ 52 / 2"
    using quantum_normal [OF assms] by (intro divide_right_mono) simp_all
  moreover have "q / 2 ^ 52 / 2 = q * (1 / 2 ^ 53)" by simp
  ultimately have b: "\<bar>round_mag q - q\<bar> \<le> q * (1 / 2 ^ 53)" by linarith
  have l: "q * (1 - 1 / 2 ^ 53) = q - q * (1 / 2 ^ 53)" by (simp only: right_diff_distrib mult_1_right)
  have r: "q * (1 + 1 / 2 ^ 53) = q + q * (1 / 2 ^ 53)" by (simp only: distrib_left mult_1_right)
  from b show "q * (1 - 1 / 2 ^ 53) \<le> round_mag q" unfolding l by linarith
  from b show "round_mag q \<le> q * (1 + 1 / 2 ^ 53)" unfolding r by linarith
qed

text \<open>One rounding of a magnitude in the normal range: the result is finite, stays between
  the same powers of two and is off by a factor of at most \<open>1 \<plusminus> 2\<^sup>-\<^sup>5\<^sup>3\<close>.\<close>

lemma fround_normal:
  assumes "2 powi lo \<le> q" and "q \<le> 2 powi hi" and "- 1022 \<le> lo" and "hi \<le> 1023"
  shows "fround s q = Finite s (round_mag q)"
    and "2 powi lo \<le> round_mag q" and "round_mag q \<le> 2 powi hi"
    and "q * (1 - 1 / 2 ^ 53) \<le> round_mag q" and "round_mag q \<le> q * (1 + 1 / 2 ^ 53)"
proof -
  have "(0::rat) < 2 powi lo" by (rule zero_less_power_int) simp
  with assms(1) have qpos: "0 < q" by linarith
  have "rat_of_int 1 * 2 powi lo \<le> round_mag q"
    using assms(1,3) by (intro round_mag_ge) simp_all
  then show lo: "2 powi lo \<le> round_mag q" by simp
  have "(2::rat) powi lo \<le> 2 powi hi" using assms(1,2) by linarith
  then have "lo \<le> hi" by (simp only: powi2_le_iff)
  with assms(3) have "- 1074 \<le> hi" by simp
  then have "round_mag q \<le> rat_of_int 1 * 2 powi hi"
    using assms(2) qpos by (intro round_mag_le) simp_all
  then show hi: "round_mag q \<le> 2 powi hi" by simp
  have "(2::rat) powi hi \<le> 2 powi 1023" using assms(4) by (simp only: powi2_le_iff)
  also have "(2::rat) powi 1023 < 2 powi 1024" by (simp only: powi2_less_iff)
  finally have "round_mag q < 2 ^ 1024" using hi by simp
  then show "fround s q = Finite s (round_mag q)" by (rule fround_Finite)
  have "(2::rat) powi (- 1022) \<le> 2 powi lo" using assms(3) by (simp only: powi2_le_iff)
  with assms(1) have n: "2 powi (- 1022) \<le> q" by linarith
  show "q * (1 - 1 / 2 ^ 53) \<le> round_mag q" by (rule round_mag_relative(1) [OF n])
  show "round_mag q \<le> q * (1 + 1 / 2 ^ 53)" by (rule round_mag_relative(2) [OF n])
qed

lemma fround_zero: "fround s 0 = Finite s 0"
  by (simp add: fround_def round_mag_0)

lemma two_roundings:
  assumes "0 \<le> a" and "a * (1 - 1 / 2 ^ 53) \<le> p" and "p \<le> a * (1 + 1 / 2 ^ 53)"
      and "p * (1 - 1 / 2 ^ 53) \<le> v" and "v \<le> p * (1 + 1 / 2 ^ 53)"
  shows "\<bar>v - a\<bar> \<le> (a::rat) / 2 ^ 51"
proof -
  define U :: rat where "U = 1 + 1 / 2 ^ 53"
  define L :: rat where "L = 1 - 1 / 2 ^ 53"
  have U0: "0 \<le> U" and L0: "0 \<le> L" by (simp_all add: U_def L_def)
  have UU: "U * U \<le> 1 + 1 / 2 ^ 51" by (simp add: U_def)
  have LL: "1 - 1 / 2 ^ 51 \<le> L * L" by (simp add: L_def)
  have "v \<le> p * U" using assms(5) by (simp only: U_def)
  also have "p * U \<le> (a * U) * U"
    using assms(3) U0 unfolding U_def [symmetric] by (rule mult_right_mono)
  also have "(a * U) * U = a * (U * U)" by (simp only: mult.assoc)
  also have "a * (U * U) \<le> a * (1 + 1 / 2 ^ 51)"
    using UU assms(1) by (rule mult_left_mono)
  finally have up: "v \<le> a + a / 2 ^ 51" by (simp add: algebra_simps)
  have "a * (1 - 1 / 2 ^ 51) \<le> a * (L * L)"
    using LL assms(1) by (rule mult_left_mono)
  also have "a * (L * L) = (a * L) * L" by (simp only: mult.assoc)
  also have "(a * L) * L \<le> p * L"
    using assms(2) L0 unfolding L_def [symmetric] by (rule mult_right_mono)
  also have "p * L \<le> v" using assms(4) by (simp only: L_def)
  finally have lo: "a - a / 2 ^ 51 \<le> v" by (simp add: algebra_simps)
  define e where "e = a / 2 ^ 51"
  from up have "v - a \<le> e" unfolding e_def by linarith
  moreover from lo have "- e \<le> v - a" unfolding e_def by linarith
  ultimately have "\<bar>v - a\<bar> \<le> e" by linarith
  then show ?thesis by (simp only: e_def)
qed

lemma band_round:
  assumes "A * l \<le> m" and "m \<le> A * u" and "m * L \<le> v" and "v \<le> m * U"
      and "0 \<le> L" and "0 \<le> U"
  shows "A * (l * L) \<le> (v::rat)" and "v \<le> A * (u * U)"
proof -
  have "A * (l * L) = (A * l) * L" by (simp only: mult.assoc)
  also have "\<dots> \<le> m * L" using assms(1,5) by (rule mult_right_mono)
  finally show "A * (l * L) \<le> v" using assms(3) by linarith
  have "m * U \<le> (A * u) * U" using assms(2,6) by (rule mult_right_mono)
  also have "\<dots> = A * (u * U)" by (simp only: mult.assoc)
  finally show "v \<le> A * (u * U)" using assms(4) by linarith
qed

lemma band_scale:
  assumes "A * l \<le> m" and "m \<le> A * u" and "0 \<le> c"
  shows "(A * c) * l \<le> m * (c::rat)" and "m * c \<le> (A * c) * u"
proof -
  have "(A * c) * l = (A * l) * c" by (simp only: mult.assoc mult.commute mult.left_commute)
  also have "\<dots> \<le> m * c" using assms(1,3) by (rule mult_right_mono)
  finally show "(A * c) * l \<le> m * c" .
  have "m * c \<le> (A * u) * c" using assms(2,3) by (rule mult_right_mono)
  also have "\<dots> = (A * c) * u" by (simp only: mult.assoc mult.commute mult.left_commute)
  finally show "m * c \<le> (A * c) * u" .
qed

lemma band_div:
  assumes "A * l \<le> m" and "m \<le> A * u" and "0 < c"
  shows "(A / c) * l \<le> m / (c::rat)" and "m / c \<le> (A / c) * u"
proof -
  have c: "0 \<le> 1 / c" using assms(3) by simp
  from band_scale [OF assms(1,2) c]
  show "(A / c) * l \<le> m / c" and "m / c \<le> (A / c) * u" by simp_all
qed

lemma three_roundings:
  assumes "0 \<le> E"
      and "E * ((1 - 1 / 2 ^ 53) * (1 - 1 / 2 ^ 53) * (1 - 1 / 2 ^ 53)) \<le> v"
      and "v \<le> E * ((1 + 1 / 2 ^ 53) * (1 + 1 / 2 ^ 53) * (1 + 1 / 2 ^ 53))"
      and "E * ((1 - 1 / 2 ^ 53) * (1 - 1 / 2 ^ 53) * (1 - 1 / 2 ^ 53)) \<le> w"
      and "w \<le> E * ((1 + 1 / 2 ^ 53) * (1 + 1 / 2 ^ 53) * (1 + 1 / 2 ^ 53))"
  shows "\<bar>v - w\<bar> \<le> (E::rat) / 2 ^ 50"
proof -
  define U :: rat where "U = (1 + 1 / 2 ^ 53) * (1 + 1 / 2 ^ 53) * (1 + 1 / 2 ^ 53)"
  define L :: rat where "L = (1 - 1 / 2 ^ 53) * (1 - 1 / 2 ^ 53) * (1 - 1 / 2 ^ 53)"
  have "U - L \<le> 1 / 2 ^ 50" by (simp add: U_def L_def)
  then have "E * (U - L) \<le> E * (1 / 2 ^ 50)" using assms(1) by (rule mult_left_mono)
  then have d: "E * U - E * L \<le> E / 2 ^ 50" by (simp add: right_diff_distrib)
  note b = assms(2-5) [folded U_def L_def]
  define e where "e = E / 2 ^ 50"
  from b d have "v - w \<le> e" and "- e \<le> v - w" unfolding e_def by linarith+
  then have "\<bar>v - w\<bar> \<le> e" by linarith
  then show ?thesis by (simp only: e_def)
qed

section \<open>Evaluating the rounding on numerals\<close>

lemma floor_rat_numeral_div [simp]: "\<lfloor>numeral a / numeral b :: rat\<rfloor> = numeral a div numeral b"
  by (metis floor_divide_of_int_eq of_int_numeral)

lemma floor_rat_one_div [simp]: "\<lfloor>1 / numeral b :: rat\<rfloor> = 1 div numeral b"
  by (metis floor_divide_of_int_eq of_int_numeral of_int_1)

lemma ceiling_rat_numeral_div [simp]: "\<lceil>numeral a / numeral b :: rat\<rceil> = - (- numeral a div numeral b)"
  by (metis ceiling_divide_eq_div of_int_numeral)

lemma floorlog_numeral [simp]:
  "floorlog 2 (numeral n) = floorlog 2 (numeral n div 2) + 1"
  by (subst compute_floorlog) simp

lemma floorlog_0 [simp]: "floorlog 2 0 = 0"
  by (simp add: floorlog_def)

lemma floorlog_1 [simp]: "floorlog 2 (Suc 0) = 1" "floorlog 2 1 = 1"
  by (subst compute_floorlog, simp)+

lemmas feval = fround_def round_mag_def quantum_def ilog2_def round_half_even_def Let_def

lemma f12: "fround False (6 / 5) = Finite False (5404319552844595 / 4503599627370496)"
  by (simp add: feval)

lemma f09: "fround False (9 / 10) = Finite False (8106479329266893 / 9007199254740992)"
  by (simp add: feval)

lemma conv_120: "fmul (fdiv (Finite False 120) (fround False (6 / 5))) (fround False (9 / 10)) = Finite False 90"
  by (simp add: f12 f09) (simp add: feval)

lemma conv_neg_120: "fmul (fdiv (Finite True 120) (fround False (6 / 5))) (fround False (9 / 10)) = Finite True 90"
  by (simp add: f12 f09) (simp add: feval)

lemma conv_7: "fmul (fdiv (Finite False 7) (fround False (6 / 5))) (fround False (6 / 5))
    = Finite False (7881299347898369 / 1125899906842624)"
  by (simp add: f12) (simp add: feval)

lemma three_tenths: "fround False (3 / 10) = Finite False (5404319552844595 / 18014398509481984)"
  by (simp add: feval)

lemma one_tenth: "fround False (1 / 10) = Finite False (3602879701896397 / 36028797018963968)"
  by (simp add: feval)

lemma three_times_tenth: "fmul (Finite False 3) (Finite False (3602879701896397 / 36028797018963968))
   = Finite False (1351079888211149 / 4503599627370496)"
  by (simp add: feval)

lemma round_small: "fround s 1 = Finite s 1" "fround s 3 = Finite s 3" "fround s 10 = Finite s 10"
  by (simp_all add: feval)

section \<open>The sample world, evaluated\<close>

lemma sample_fields [simp]:
  "unmarshal sample_world = (\<lambda>b. if b = ''complete'' then Some (JObject (document True))
                     else if b = ''failure'' then Some (JObject (document False))
                     else if b = ''no rates'' then Some (JObject (document_without ''rates''))
                     else if b = ''no base'' then Some (JObject (document_without ''base''))
                     else if b = ''no date'' then Some (JObject (document_without ''date''))
                     else None)"
  "parseFloat sample_world = (\<lambda>s. if s = ''120'' then Some (Finite False 120)
                      else if s = ''-120'' then Some (Finite True 120)
                      else if s = ''Inf'' then Some (Infinite False)
                      else None)"
  "formatTime sample_world = (\<lambda>t. ''2020-09-13 12:26:40 +0000 UTC'')"
  "upstream sample_world = (\<lambda>k. GetBody ''complete'')"
  by (simp_all add: sample_world_def)

lemmas decode_eval = decodeJSON_def assert_map_def assert_bool_def
     assert_float64_def assert_string_def index_map_def int64_of_float64_def


lemma decode_failure:
  "decodeJSON sample_world ''failure'' = Return (usd_gbp\<lparr>Success := False, Timestamp := 1600007200\<rparr>)"
  by (simp add: document_def decode_eval usd_gbp_def)

lemma decode_no_rates:
  "decodeJSON sample_world ''no rates'' = Panic (InterfaceConversion T_nil T_map)"
  by (simp add: document_def document_without_def decode_eval)

lemma decode_no_base:
  "decodeJSON sample_world ''no base'' = Panic (InterfaceConversion T_nil T_string)"
  by (simp add: document_def document_without_def decode_eval)

lemma decode_no_date:
  "decodeJSON sample_world ''no date'' = Panic (InterfaceConversion T_nil T_string)"
  by (simp add: document_def document_without_def decode_eval)

lemma decode_not_json:
  "decodeJSON sample_world ''<html>'' = Exit 1"
  by (simp add: decodeJSON_def)

lemma no_rates_untyped: "\<not> fields_typed (document_without ''rates'')"
  by (simp add: fields_typed_def document_without_def document_def index_map_def)

lemma sample_rates_loop:
  "rates_loop [(''USD'', JNumber (fround False (6 / 5))), (''GBP'', JNumber (fround False (9 / 10)))]
      Map.empty
    = Return [''USD'' \<mapsto> fround False (6 / 5), ''GBP'' \<mapsto> fround False (9 / 10)]"
  by (simp add: assert_float64_def)

lemma round_neg_90: "roundTo2Decimals (Finite True 90) = Finite True 90"
  by (simp add: roundTo2Decimals_def feval)

lemma tenth_times_one:
  "fmul (Finite False (3602879701896397 / 36028797018963968)) (Finite False 1)
    = Finite False (3602879701896397 / 36028797018963968)"
  by (simp add: feval)

lemma three_tenths_times_one:
  "fmul (Finite False (5404319552844595 / 18014398509481984)) (Finite False 1)
    = Finite False (5404319552844595 / 18014398509481984)"
  by (simp add: feval)

lemma div_3_10: "fdiv (Finite False 3) (Finite False 10) = Finite False (5404319552844595 / 18014398509481984)"
  using three_tenths by simp

lemma div_1_10: "fdiv (Finite False 1) (Finite False 10) = Finite False (3602879701896397 / 36028797018963968)"
  using one_tenth by simp

lemma mul_3_1: "fmul (Finite False 3) (Finite False 1) = Finite False 3"
  by (simp add: round_small)

section \<open>The claims\<close>

subsection \<open>C1: the conversion formula\<close>

text \<open>
  C1. For every snapshot whose rate table contains \<open>fromCode\<close> and \<open>toCode\<close>, and every
  amount, \<open>convert\<close> is the amount divided by the rate of \<open>fromCode\<close> and then multiplied
  by the rate of \<open>toCode\<close>, both in float64 arithmetic. With the rates 1.2 for USD and
  0.9 for GBP, converting 120 USD to GBP gives exactly 90.
\<close>

theorem C1_convert_formula:
  "(Rates s fromCode = Some rf \<longrightarrow> Rates s toCode = Some rt \<longrightarrow>
      convert s fromCode toCode amount = fmul (fdiv amount rf) rt) \<and>
   (Rates s ''USD'' = Some (fround False (6 / 5)) \<longrightarrow>
    Rates s ''GBP'' = Some (fround False (9 / 10)) \<longrightarrow>
      convert s ''USD'' ''GBP'' (Finite False 120) = Finite False 90)"
  by (simp add: convert_def rate_def conv_120)

theorem C1_convert_formula_witness:
  "Rates usd_gbp ''USD'' = Some (fround False (6 / 5)) \<and>
   Rates usd_gbp ''GBP'' = Some (fround False (9 / 10)) \<and>
   convert usd_gbp ''USD'' ''GBP'' (Finite False 120) =
     fmul (fdiv (Finite False 120) (fround False (6 / 5))) (fround False (9 / 10)) \<and>
   convert usd_gbp ''USD'' ''GBP'' (Finite False 120) = Finite False 90"
proof -
  have a: "Rates usd_gbp ''USD'' = Some (fround False (6 / 5))"
    by (simp add: usd_gbp_def)
  have b: "Rates usd_gbp ''GBP'' = Some (fround False (9 / 10))"
    by (simp add: usd_gbp_def)
  note t = C1_convert_formula [of usd_gbp "''USD''" "fround False (6 / 5)" "''GBP''"
      "fround False (9 / 10)" "Finite False 120"]
  from t a b have c: "convert usd_gbp ''USD'' ''GBP'' (Finite False 120) =
     fmul (fdiv (Finite False 120) (fround False (6 / 5))) (fround False (9 / 10))"
    by blast
  from t a b have d: "convert usd_gbp ''USD'' ''GBP'' (Finite False 120) = Finite False 90"
    by blast
  from a b c d show ?thesis by (intro conjI)
qed

subsection \<open>C2: a snapshot of at most one hour is served as it is\<close>



subsection \<open>C3: a currency that is not in the rate table\<close>




subsection \<open>C4: a refresh that fails\<close>

text \<open>
  C4, as amended. When the snapshot is older than one hour and the body that the provider
  sends cannot be decoded, \<open>update\<close> does not return the cached snapshot: a body that is
  not JSON ends the process with status 1 (\<open>log.Fatalln\<close>), and a JSON object in which
  a required field is missing or has another type panics on the type assertion. One
  request has been sent in both cases. Nothing marks a result as degraded.
\<close>

theorem C4_failed_refresh_aborts:
  assumes "Hour < now - Timestamp s * 1000000000"
      and "upstream W k = GetBody b"
  shows "(unmarshal W b = None \<longrightarrow> update W now s k = (Exit 1, Suc k)) \<and>
         (\<forall>m. unmarshal W b = Some (JObject m) \<and> \<not> fields_typed m \<longrightarrow>
              (\<exists>t u. update W now s k = (Panic (InterfaceConversion t u), Suc k)))"
proof -
  have u: "update W now s k = (decodeJSON W b, Suc k)"
    by (simp add: update_stale [OF assms(1)] assms(2))
  have "unmarshal W b = None \<longrightarrow> update W now s k = (Exit 1, Suc k)"
    by (simp add: u decodeJSON_def)
  moreover have "\<forall>m. unmarshal W b = Some (JObject m) \<and> \<not> fields_typed m \<longrightarrow>
              (\<exists>t u. update W now s k = (Panic (InterfaceConversion t u), Suc k))"
    using decodeJSON_untyped [of W b] by (auto simp add: u)
  ultimately show ?thesis by simp
qed

theorem C4_failed_refresh_aborts_witness:
  "Hour < 1600007200000000000 - Timestamp usd_gbp * 1000000000 \<and>
   upstream (sample_world\<lparr>upstream := \<lambda>k. GetBody ''<html>''\<rparr>) 1 = GetBody ''<html>'' \<and>
   unmarshal (sample_world\<lparr>upstream := \<lambda>k. GetBody ''<html>''\<rparr>) ''<html>'' = None \<and>
   update (sample_world\<lparr>upstream := \<lambda>k. GetBody ''<html>''\<rparr>) 1600007200000000000 usd_gbp 1
     = (Exit 1, Suc 1) \<and>
   upstream (sample_world\<lparr>upstream := \<lambda>k. GetBody ''no rates''\<rparr>) 1 = GetBody ''no rates'' \<and>
   unmarshal (sample_world\<lparr>upstream := \<lambda>k. GetBody ''no rates''\<rparr>) ''no rates''
     = Some (JObject (document_without ''rates'')) \<and>
   \<not> fields_typed (document_without ''rates'') \<and>
   (\<exists>t u. update (sample_world\<lparr>upstream := \<lambda>k. GetBody ''no rates''\<rparr>) 1600007200000000000
            usd_gbp 1 = (Panic (InterfaceConversion t u), Suc 1))"
proof -
  have a: "Hour < 1600007200000000000 - Timestamp usd_gbp * 1000000000"
    by (simp add: usd_gbp_def Hour_def)
  have b: "upstream (sample_world\<lparr>upstream := \<lambda>k. GetBody ''<html>''\<rparr>) 1 = GetBody ''<html>''"
    by simp
  have c: "unmarshal (sample_world\<lparr>upstream := \<lambda>k. GetBody ''<html>''\<rparr>) ''<html>'' = None"
    by simp
  from C4_failed_refresh_aborts [OF a b] c
  have d: "update (sample_world\<lparr>upstream := \<lambda>k. GetBody ''<html>''\<rparr>) 1600007200000000000 usd_gbp 1
     = (Exit 1, Suc 1)"
    by blast
  have e: "upstream (sample_world\<lparr>upstream := \<lambda>k. GetBody ''no rates''\<rparr>) 1 = GetBody ''no rates''"
    by simp
  have f: "unmarshal (sample_world\<lparr>upstream := \<lambda>k. GetBody ''no rates''\<rparr>) ''no rates''
     = Some (JObject (document_without ''rates''))"
    by simp
  note g = no_rates_untyped
  from C4_failed_refresh_aborts [OF a e] f g
  have h: "\<exists>t u. update (sample_world\<lparr>upstream := \<lambda>k. GetBody ''no rates''\<rparr>) 1600007200000000000
            usd_gbp 1 = (Panic (InterfaceConversion t u), Suc 1)"
    by blast
  from a b c d e f g h show ?thesis by (intro conjI)
qed

text \<open>
  C4 as stated fails: the snapshot was fetched at 1600000000 and the refresh two hours
  later fails. With a body that is not JSON the call ends the process, and with a failed
  \<open>http.Get\<close> it panics; the snapshot of 1600000000 is not returned.
\<close>

theorem C4_failed_refresh_does_not_serve_the_snapshot:
  "update (sample_world\<lparr>upstream := \<lambda>k. GetBody ''<html>''\<rparr>) 1600007200000000000 usd_gbp 1
     = (Exit 1, 2) \<and>
   update (sample_world\<lparr>upstream := \<lambda>k. GetError\<rparr>) 1600007200000000000 usd_gbp 1
     = (Panic NilPointerDereference, 2)"
proof -
  have stale: "Hour < 1600007200000000000 - Timestamp usd_gbp * 1000000000"
    by (simp add: usd_gbp_def Hour_def)
  have "decodeJSON (sample_world\<lparr>upstream := \<lambda>k. GetBody ''<html>''\<rparr>) ''<html>'' = Exit 1"
    by (simp add: decodeJSON_def)
  then show ?thesis
    by (simp add: update_stale [OF stale])
qed

subsection \<open>C5: a required field that is missing or has another type\<close>

text \<open>
  C5, as amended. For every JSON object in which one of the fields \<open>success\<close>,
  \<open>timestamp\<close>, \<open>base\<close>, \<open>date\<close> and \<open>rates\<close> is missing or has another type than
  the one asserted, \<open>decodeJSON\<close> panics on a failed type assertion and returns no
  snapshot; no default is put in the place of the field. The panic carries the dynamic
  and the asserted type, not the name of the field.
\<close>

theorem C5_untyped_field_panics:
  assumes "unmarshal W b = Some (JObject m)" and "\<not> fields_typed m"
  shows "(\<exists>t u. decodeJSON W b = Panic (InterfaceConversion t u)) \<and>
         (\<forall>s. decodeJSON W b \<noteq> Return s)"
proof -
  from decodeJSON_untyped [OF assms]
  obtain t u where "decodeJSON W b = Panic (InterfaceConversion t u)" by blast
  then show ?thesis by simp
qed

theorem C5_untyped_field_panics_witness:
  "unmarshal sample_world ''no rates'' = Some (JObject (document_without ''rates'')) \<and>
   \<not> fields_typed (document_without ''rates'') \<and>
   (\<exists>t u. decodeJSON sample_world ''no rates'' = Panic (InterfaceConversion t u)) \<and>
   (\<forall>s. decodeJSON sample_world ''no rates'' \<noteq> Return s)"
proof -
  have a: "unmarshal sample_world ''no rates'' = Some (JObject (document_without ''rates''))"
    by simp
  note b = no_rates_untyped
  from C5_untyped_field_panics [OF a b] a b show ?thesis by (intro conjI) blast+
qed

text \<open>
  C5 as stated fails in the part that the error names the field: a document without
  \<open>base\<close> and a document without \<open>date\<close> end in the same panic, and the panic for a
  document without \<open>rates\<close> names two types only.
\<close>

theorem C5_panic_does_not_name_the_field:
  "decodeJSON sample_world ''no rates'' = Panic (InterfaceConversion T_nil T_map) \<and>
   decodeJSON sample_world ''no base'' = Panic (InterfaceConversion T_nil T_string) \<and>
   decodeJSON sample_world ''no date'' = Panic (InterfaceConversion T_nil T_string)"
  by (simp only: decode_no_rates decode_no_base decode_no_date)

subsection \<open>C6: converting a currency to itself\<close>

text \<open>
  C6, as amended. For a currency whose rate is finite with a magnitude between
  \<open>2 powi (- 500)\<close> and \<open>2 powi 500\<close>, and a non-negative amount that is zero or lies
  between the same bounds, converting the currency to itself returns a finite
  non-negative value that differs from the amount by at most the amount divided by \<open>2 ^ 51\<close>:
  the identity up to the two roundings of the division and the multiplication. A zero
  amount is returned as zero.
\<close>

theorem C6_self_conversion_within_rounding:
  assumes "Rates s X = Some (Finite sr r)"
      and "2 powi (- 500) \<le> r" and "r \<le> 2 powi 500"
      and "a = 0 \<or> (2 powi (- 500) \<le> a \<and> a \<le> 2 powi 500)"
  shows "\<exists>v. convert s X X (Finite False a) = Finite False v \<and> \<bar>v - a\<bar> \<le> a / 2 ^ 51"
proof -
  have "(0::rat) < 2 powi (- 500)" by (rule zero_less_power_int) simp
  with assms(2) have rpos: "0 < r" by linarith
  have conv: "convert s X X (Finite False a)
      = fmul (fdiv (Finite False a) (Finite sr r)) (Finite sr r)"
    by (simp add: convert_def rate_def assms(1))
  show ?thesis
  proof (cases "a = 0")
    case True
    have "fdiv (Finite False a) (Finite sr r) = Finite sr 0"
      using rpos True by (simp add: fround_zero)
    then have "convert s X X (Finite False a) = Finite False 0"
      by (simp add: conv fround_zero)
    then show ?thesis using True by simp
  next
    case False
    with assms(4) have alo: "2 powi (- 500) \<le> a" and ahi: "a \<le> 2 powi 500" by simp_all
    from alo \<open>(0::rat) < 2 powi (- 500)\<close> have apos: "0 < a" by linarith
    define q where "q = a / r"
    define q' where "q' = round_mag q"
    have qlo: "2 powi (- 1000) \<le> q"
      using powi2_div_lower [OF alo rpos assms(3)] by (simp add: q_def)
    have qhi: "q \<le> 2 powi 1000"
      using powi2_div_upper [OF _ ahi assms(2)] apos by (simp add: q_def)
    note n1 = fround_normal [OF qlo qhi, folded q'_def]
    have d: "fdiv (Finite False a) (Finite sr r) = Finite sr q'"
      using rpos n1(1) [of sr] by (simp add: q_def)
    define p where "p = q' * r"
    have qr: "q * r = a" using rpos by (simp add: q_def)
    have plo: "a * (1 - 1 / 2 ^ 53) \<le> p"
    proof -
      have "q * (1 - 1 / 2 ^ 53) * r \<le> q' * r"
        using n1(4) rpos by (intro mult_right_mono) simp_all
      moreover have "q * (1 - 1 / 2 ^ 53) * r = (q * r) * (1 - 1 / 2 ^ 53)"
        by (simp only: mult.assoc mult.commute mult.left_commute)
      ultimately show ?thesis by (simp only: qr p_def)
    qed
    have phi: "p \<le> a * (1 + 1 / 2 ^ 53)"
    proof -
      have "q' * r \<le> q * (1 + 1 / 2 ^ 53) * r"
        using n1(5) rpos by (intro mult_right_mono) simp_all
      moreover have "q * (1 + 1 / 2 ^ 53) * r = (q * r) * (1 + 1 / 2 ^ 53)"
        by (simp only: mult.assoc mult.commute mult.left_commute)
      ultimately show ?thesis by (simp only: qr p_def)
    qed
    have "(2::rat) powi (- 501) = 2 powi (- 500) * (1 / 2)"
      using power_int_add [of "2::rat" "- 500" "- 1"] by simp
    also have "\<dots> \<le> a * (1 - 1 / 2 ^ 53)"
      using alo by (intro mult_mono) simp_all
    finally have plo2: "2 powi (- 501) \<le> p" using plo by linarith
    have "a * (1 + 1 / 2 ^ 53) \<le> 2 powi 500 * 2"
      using ahi apos by (intro mult_mono) simp_all
    also have "(2::rat) powi 500 * 2 = 2 powi 501"
      using power_int_add [of "2::rat" 500 1] by simp
    finally have phi2: "p \<le> 2 powi 501" using phi by linarith
    define v where "v = round_mag p"
    note n2 = fround_normal [OF plo2 phi2, folded v_def]
    have "fmul (Finite sr q') (Finite sr r) = Finite False v"
      using n2(1) [of False] by (simp add: p_def)
    then have "convert s X X (Finite False a) = Finite False v"
      by (simp only: conv d)
    moreover have "\<bar>v - a\<bar> \<le> a / 2 ^ 51"
      using apos plo phi n2(4) n2(5) by (intro two_roundings) simp_all
    ultimately show ?thesis by blast
  qed
qed

theorem C6_self_conversion_within_rounding_witness:
  "Rates usd_gbp ''USD'' = Some (Finite False (5404319552844595 / 4503599627370496)) \<and>
   2 powi (- 500) \<le> (5404319552844595 / 4503599627370496 :: rat) \<and>
   (5404319552844595 / 4503599627370496 :: rat) \<le> 2 powi 500 \<and>
   ((7::rat) = 0 \<or> (2 powi (- 500) \<le> (7::rat) \<and> (7::rat) \<le> 2 powi 500)) \<and>
   (\<exists>v. convert usd_gbp ''USD'' ''USD'' (Finite False 7) = Finite False v \<and>
        \<bar>v - 7\<bar> \<le> 7 / 2 ^ 51)"
proof -
  have a: "Rates usd_gbp ''USD'' = Some (Finite False (5404319552844595 / 4503599627370496))"
    by (simp add: usd_gbp_def f12)
  have b: "2 powi (- 500) \<le> (5404319552844595 / 4503599627370496 :: rat)"
    by simp
  have c: "(5404319552844595 / 4503599627370496 :: rat) \<le> 2 powi 500"
    by simp
  have d: "(7::rat) = 0 \<or> (2 powi (- 500) \<le> (7::rat) \<and> (7::rat) \<le> 2 powi 500)"
    by simp
  note e = C6_self_conversion_within_rounding [OF a b c d]
  from a b c d e show ?thesis by (intro conjI)
qed

text \<open>
  C6 as stated fails: a rate of 0 in the table gives a NaN for the amount 10, and with
  the rate 1.2 the amount 7 comes back as the next float64 above 7.
\<close>

theorem C6_self_conversion_is_not_the_identity:
  "convert odd_rates ''XXX'' ''XXX'' (Finite False 10) = NaN \<and>
   convert usd_gbp ''USD'' ''USD'' (Finite False 7)
     = Finite False (7881299347898369 / 1125899906842624)"
proof -
  have "convert odd_rates ''XXX'' ''XXX'' (Finite False 10) = NaN"
    by (simp add: convert_def rate_def odd_rates_def)
  moreover have "convert usd_gbp ''USD'' ''USD'' (Finite False 7)
     = Finite False (7881299347898369 / 1125899906842624)"
    by (simp add: convert_def rate_def usd_gbp_def conv_7)
  ultimately show ?thesis by simp
qed

subsection \<open>C7: the success flag of the provider\<close>

text \<open>
  C7, as amended. \<open>decodeJSON\<close> copies the success flag into the snapshot and does not
  test it: a JSON object whose five required fields have their types and whose rates are
  numbers is decoded into a snapshot, whatever the flag says, and the snapshot carries the
  flag in its field \<open>Success\<close>.
\<close>

theorem C7_success_flag_is_copied:
  assumes "unmarshal W b = Some (JObject m)"
      and "index_map m ''success'' = JBool ok"
      and "index_map m ''timestamp'' = JNumber ts"
      and "index_map m ''base'' = JString bs"
      and "index_map m ''date'' = JString dt"
      and "index_map m ''rates'' = JObject ri"
      and "rates_loop ri Map.empty = Return rs"
  shows "decodeJSON W b =
           Return \<lparr>Success = ok, Timestamp = int64_of_float64 ts, Base = bs, Date = dt,
                   Rates = rs\<rparr>"
  using assms(2-7)
  by (simp add: decodeJSON_object [OF assms(1)] assert_bool_def assert_float64_def
        assert_string_def assert_map_def)

theorem C7_success_flag_is_copied_witness:
  "unmarshal sample_world ''failure'' = Some (JObject (document False)) \<and>
   index_map (document False) ''success'' = JBool False \<and>
   index_map (document False) ''timestamp'' = JNumber (Finite False 1600007200) \<and>
   index_map (document False) ''base'' = JString ''EUR'' \<and>
   index_map (document False) ''date'' = JString ''2020-09-13'' \<and>
   index_map (document False) ''rates'' =
      JObject [(''USD'', JNumber (fround False (6 / 5))), (''GBP'', JNumber (fround False (9 / 10)))] \<and>
   rates_loop [(''USD'', JNumber (fround False (6 / 5))), (''GBP'', JNumber (fround False (9 / 10)))]
      Map.empty
    = Return [''USD'' \<mapsto> fround False (6 / 5), ''GBP'' \<mapsto> fround False (9 / 10)] \<and>
   decodeJSON sample_world ''failure'' =
     Return \<lparr>Success = False, Timestamp = int64_of_float64 (Finite False 1600007200),
             Base = ''EUR'', Date = ''2020-09-13'',
             Rates = [''USD'' \<mapsto> fround False (6 / 5), ''GBP'' \<mapsto> fround False (9 / 10)]\<rparr>"
proof -
  have a: "unmarshal sample_world ''failure'' = Some (JObject (document False))"
    by simp
  have b: "index_map (document False) ''success'' = JBool False"
    by (simp add: document_def index_map_def)
  have c: "index_map (document False) ''timestamp'' = JNumber (Finite False 1600007200)"
    by (simp add: document_def index_map_def)
  have d: "index_map (document False) ''base'' = JString ''EUR''"
    by (simp add: document_def index_map_def)
  have e: "index_map (document False) ''date'' = JString ''2020-09-13''"
    by (simp add: document_def index_map_def)
  have f: "index_map (document False) ''rates'' =
      JObject [(''USD'', JNumber (fround False (6 / 5))), (''GBP'', JNumber (fround False (9 / 10)))]"
    by (simp add: document_def index_map_def)
  note g = sample_rates_loop
  note h = C7_success_flag_is_copied [OF a b c d e f g]
  from a b c d e f g h show ?thesis by (intro conjI)
qed

text \<open>
  C7 as stated fails: the complete document with \<open>success\<close> equal to false is decoded
  into a snapshot with both rates.
\<close>

theorem C7_reported_failure_is_decoded:
  "decodeJSON sample_world ''failure'' =
     Return \<lparr>Success = False, Timestamp = 1600007200, Base = ''EUR'', Date = ''2020-09-13'',
             Rates = [''USD'' \<mapsto> fround False (6 / 5), ''GBP'' \<mapsto> fround False (9 / 10)]\<rparr>"
  by (simp add: decode_failure usd_gbp_def)

subsection \<open>C8: an amount that is negative or not finite\<close>

text \<open>
  C8, as amended. Neither \<open>convert\<close> nor \<open>convertHandler\<close> tests the amount: for every
  amount that \<open>strconv.ParseFloat\<close> accepts, a negative number, an infinity and a NaN
  among them, and two codes of the rate table, the handler renders the page with the
  rounded result of the conversion formula.
\<close>

theorem C8_amount_is_not_validated:
  assumes "update W now (data st) (requests st) = (Return d, k)"
      and "query_from r = from # fs" and "query_to r = to # ts"
      and "query_value r = v # vs"
      and "parseFloat W v = Some amount"
      and "Rates d from = Some rf" and "Rates d to = Some rt"
  shows "convertHandler W now r st =
          (Return (Render ''convert''
             \<lparr>From = from, To = to, Value = amount,
              Result = roundTo2Decimals (fmul (fdiv amount rf) rt),
              Time = formatTime W (Timestamp d)\<rparr>),
           \<lparr>data = d, requests = k\<rparr>)"
  using assms(5-7)
  by (simp add: handler_after_update [OF assms(1-4)] convert_def rate_def)

theorem C8_amount_is_not_validated_witness:
  "update sample_world 1600001800000000000 (data \<lparr>data = usd_gbp, requests = 0\<rparr>)
      (requests \<lparr>data = usd_gbp, requests = 0\<rparr>) = (Return usd_gbp, 0) \<and>
   query_from (sample_request ''USD'' ''GBP'' ''-120'') = ''USD'' # [] \<and>
   query_to (sample_request ''USD'' ''GBP'' ''-120'') = ''GBP'' # [] \<and>
   query_value (sample_request ''USD'' ''GBP'' ''-120'') = ''-120'' # [] \<and>
   parseFloat sample_world ''-120'' = Some (Finite True 120) \<and>
   Rates usd_gbp ''USD'' = Some (fround False (6 / 5)) \<and>
   Rates usd_gbp ''GBP'' = Some (fround False (9 / 10)) \<and>
   convertHandler sample_world 1600001800000000000 (sample_request ''USD'' ''GBP'' ''-120'')
      \<lparr>data = usd_gbp, requests = 0\<rparr>
     = (Return (Render ''convert''
             \<lparr>From = ''USD'', To = ''GBP'', Value = Finite True 120,
              Result = Finite True 90,
              Time = ''2020-09-13 12:26:40 +0000 UTC''\<rparr>),
        \<lparr>data = usd_gbp, requests = 0\<rparr>)"
proof -
  have fresh: "1600001800000000000 - Timestamp usd_gbp * 1000000000 \<le> Hour"
    by (simp add: usd_gbp_def Hour_def)
  have a: "update sample_world 1600001800000000000 (data \<lparr>data = usd_gbp, requests = 0\<rparr>)
      (requests \<lparr>data = usd_gbp, requests = 0\<rparr>) = (Return usd_gbp, 0)"
    using update_fresh [OF fresh, of sample_world 0] by simp
  have b: "query_from (sample_request ''USD'' ''GBP'' ''-120'') = ''USD'' # []"
    by (simp add: sample_request_def)
  have c: "query_to (sample_request ''USD'' ''GBP'' ''-120'') = ''GBP'' # []"
    by (simp add: sample_request_def)
  have d: "query_value (sample_request ''USD'' ''GBP'' ''-120'') = ''-120'' # []"
    by (simp add: sample_request_def)
  have e: "parseFloat sample_world ''-120'' = Some (Finite True 120)"
    by simp
  have f: "Rates usd_gbp ''USD'' = Some (fround False (6 / 5))"
    by (simp add: usd_gbp_def)
  have g: "Rates usd_gbp ''GBP'' = Some (fround False (9 / 10))"
    by (simp add: usd_gbp_def)
  have h: "roundTo2Decimals (fmul (fdiv (Finite True 120) (fround False (6 / 5))) (fround False (9 / 10)))
      = Finite True 90"
    by (simp only: conv_neg_120 round_neg_90)
  have i: "formatTime sample_world (Timestamp usd_gbp) = ''2020-09-13 12:26:40 +0000 UTC''"
    by simp
  from C8_amount_is_not_validated [OF a b c d e f g]
  have j: "convertHandler sample_world 1600001800000000000 (sample_request ''USD'' ''GBP'' ''-120'')
      \<lparr>data = usd_gbp, requests = 0\<rparr>
     = (Return (Render ''convert''
             \<lparr>From = ''USD'', To = ''GBP'', Value = Finite True 120,
              Result = Finite True 90,
              Time = ''2020-09-13 12:26:40 +0000 UTC''\<rparr>),
        \<lparr>data = usd_gbp, requests = 0\<rparr>)"
    by (simp only: h i)
  from a b c d e f g j show ?thesis by (intro conjI)
qed

text \<open>
  C8 as stated fails: converting -120 USD to GBP returns -90, an infinite amount returns
  the infinity and a NaN returns a NaN; none of the three is an error.
\<close>

theorem C8_negative_amount_is_converted:
  "convert usd_gbp ''USD'' ''GBP'' (Finite True 120) = Finite True 90 \<and>
   convert usd_gbp ''USD'' ''GBP'' (Infinite False) = Infinite False \<and>
   convert usd_gbp ''USD'' ''GBP'' NaN = NaN"
  by (simp add: convert_def rate_def usd_gbp_def conv_neg_120) (simp add: f12 f09)

subsection \<open>C9: callers at the same time\<close>




subsection \<open>C10: scaling the amount\<close>

text \<open>
  C10, as amended. For two scalars \<open>k\<close> and \<open>x\<close> and two rates of the table, all four
  finite with magnitudes between \<open>2 powi (- 200)\<close> and \<open>2 powi 200\<close>, the conversion of
  the float64 product \<open>k * x\<close> and \<open>k\<close> times the conversion of \<open>x\<close> are finite, have the
  same sign, and differ by at most the exact value \<open>k * x / r1 * r2\<close> divided by
  \<open>2 ^ 50\<close>: the conversion is homogeneous up to the three roundings on each side.
\<close>

theorem C10_scaling_within_rounding:
  assumes "Rates s c1 = Some (Finite s1 r1)" and "Rates s c2 = Some (Finite s2 r2)"
      and "2 powi (- 200) \<le> r1" and "r1 \<le> 2 powi 200"
      and "2 powi (- 200) \<le> r2" and "r2 \<le> 2 powi 200"
      and "2 powi (- 200) \<le> km" and "km \<le> 2 powi 200"
      and "2 powi (- 200) \<le> xm" and "xm \<le> 2 powi 200"
  shows "\<exists>sg l r.
           convert s c1 c2 (fmul (Finite sk km) (Finite sx xm)) = Finite sg l \<and>
           fmul (Finite sk km) (convert s c1 c2 (Finite sx xm)) = Finite sg r \<and>
           \<bar>l - r\<bar> \<le> (km * xm / r1 * r2) / 2 ^ 50"
proof -
  have p200: "(0::rat) < 2 powi (- 200)" by (rule zero_less_power_int) simp
  from p200 assms(3) have r1pos: "0 < r1" by linarith
  from p200 assms(5) have r2pos: "0 < r2" by linarith
  from p200 assms(7) have kpos: "0 < km" by linarith
  from p200 assms(9) have xpos: "0 < xm" by linarith
  have g400: "(- 1022::int) \<le> - 400" "(400::int) \<le> 1023" by simp_all
  have g600: "(- 1022::int) \<le> - 600" "(600::int) \<le> 1023" by simp_all
  have g800: "(- 1022::int) \<le> - 800" "(800::int) \<le> 1023" by simp_all
  have L0: "(0::rat) \<le> 1 - 1 / 2 ^ 53" and U0: "(0::rat) \<le> 1 + 1 / 2 ^ 53" by simp_all
  have conv: "\<And>a. convert s c1 c2 a = fmul (fdiv a (Finite s1 r1)) (Finite s2 r2)"
    by (simp add: convert_def rate_def assms(1,2))
  \<comment> \<open>the left side: multiply, divide, multiply\<close>
  define m1 where "m1 = km * xm"
  define v1 where "v1 = round_mag m1"
  have m1lo: "2 powi (- 400) \<le> m1"
    using powi2_mult_lower [OF assms(7) assms(9)] by (simp add: m1_def)
  have m1hi: "m1 \<le> 2 powi 400"
    using powi2_mult_upper [OF _ _ assms(8) assms(10)] kpos xpos by (simp add: m1_def)
  note a1 = fround_normal [OF m1lo m1hi g400, folded v1_def]
  have e1: "fmul (Finite sk km) (Finite sx xm) = Finite (sk \<noteq> sx) v1"
    using a1(1) [of "sk \<noteq> sx"] by (simp add: m1_def)
  have v1pos: "0 \<le> v1"
  proof -
    have "(0::rat) < 2 powi (- 400)" by (rule zero_less_power_int) simp
    with a1(2) show ?thesis by simp
  qed
  define m2 where "m2 = v1 / r1"
  define v2 where "v2 = round_mag m2"
  have m2lo: "2 powi (- 600) \<le> m2"
    using powi2_div_lower [OF _ r1pos assms(4), of "- 400" v1] a1(2) by (simp add: m2_def)
  have m2hi: "m2 \<le> 2 powi 600"
    using powi2_div_upper [OF v1pos _ assms(3), of 400] a1(3) by (simp add: m2_def)
  note a2 = fround_normal [OF m2lo m2hi g600, folded v2_def]
  have e2: "fdiv (Finite (sk \<noteq> sx) v1) (Finite s1 r1) = Finite ((sk \<noteq> sx) \<noteq> s1) v2"
    using a2(1) [of "(sk \<noteq> sx) \<noteq> s1"] r1pos by (simp add: m2_def)
  have v2pos: "0 \<le> v2"
  proof -
    have "(0::rat) < 2 powi (- 600)" by (rule zero_less_power_int) simp
    with a2(2) show ?thesis by simp
  qed
  define m3 where "m3 = v2 * r2"
  define v3 where "v3 = round_mag m3"
  have m3lo: "2 powi (- 800) \<le> m3"
    using powi2_mult_lower [OF a2(2) assms(5)] by (simp add: m3_def)
  have m3hi: "m3 \<le> 2 powi 800"
    using powi2_mult_upper [OF v2pos _ a2(3) assms(6)] r2pos by (simp add: m3_def)
  note a3 = fround_normal [OF m3lo m3hi g800, folded v3_def]
  have e3: "fmul (Finite ((sk \<noteq> sx) \<noteq> s1) v2) (Finite s2 r2)
      = Finite (((sk \<noteq> sx) \<noteq> s1) \<noteq> s2) v3"
    using a3(1) [of "((sk \<noteq> sx) \<noteq> s1) \<noteq> s2"] by (simp add: m3_def)
  have left: "convert s c1 c2 (fmul (Finite sk km) (Finite sx xm))
      = Finite (((sk \<noteq> sx) \<noteq> s1) \<noteq> s2) v3"
    by (simp only: conv e1 e2 e3)
  \<comment> \<open>the right side: divide, multiply, multiply\<close>
  define n1 where "n1 = xm / r1"
  define w1 where "w1 = round_mag n1"
  have n1lo: "2 powi (- 400) \<le> n1"
    using powi2_div_lower [OF assms(9) r1pos assms(4)] by (simp add: n1_def)
  have n1hi: "n1 \<le> 2 powi 400"
    using powi2_div_upper [OF _ assms(10) assms(3)] xpos by (simp add: n1_def)
  note b1 = fround_normal [OF n1lo n1hi g400, folded w1_def]
  have f1: "fdiv (Finite sx xm) (Finite s1 r1) = Finite (sx \<noteq> s1) w1"
    using b1(1) [of "sx \<noteq> s1"] r1pos by (simp add: n1_def)
  have w1pos: "0 \<le> w1"
  proof -
    have "(0::rat) < 2 powi (- 400)" by (rule zero_less_power_int) simp
    with b1(2) show ?thesis by simp
  qed
  define n2 where "n2 = w1 * r2"
  define w2 where "w2 = round_mag n2"
  have n2lo: "2 powi (- 600) \<le> n2"
    using powi2_mult_lower [OF b1(2) assms(5)] by (simp add: n2_def)
  have n2hi: "n2 \<le> 2 powi 600"
    using powi2_mult_upper [OF w1pos _ b1(3) assms(6)] r2pos by (simp add: n2_def)
  note b2 = fround_normal [OF n2lo n2hi g600, folded w2_def]
  have f2: "fmul (Finite (sx \<noteq> s1) w1) (Finite s2 r2) = Finite ((sx \<noteq> s1) \<noteq> s2) w2"
    using b2(1) [of "(sx \<noteq> s1) \<noteq> s2"] by (simp add: n2_def)
  have w2pos: "0 \<le> w2"
  proof -
    have "(0::rat) < 2 powi (- 600)" by (rule zero_less_power_int) simp
    with b2(2) show ?thesis by simp
  qed
  define n3 where "n3 = w2 * km"
  define w3 where "w3 = round_mag n3"
  have n3lo: "2 powi (- 800) \<le> n3"
    using powi2_mult_lower [OF b2(2) assms(7)] by (simp add: n3_def)
  have n3hi: "n3 \<le> 2 powi 800"
    using powi2_mult_upper [OF w2pos _ b2(3) assms(8)] kpos by (simp add: n3_def)
  note b3 = fround_normal [OF n3lo n3hi g800, folded w3_def]
  have f3: "fmul (Finite sk km) (Finite ((sx \<noteq> s1) \<noteq> s2) w2)
      = Finite (sk \<noteq> ((sx \<noteq> s1) \<noteq> s2)) w3"
    using b3(1) [of "sk \<noteq> ((sx \<noteq> s1) \<noteq> s2)"] by (simp add: n3_def mult.commute)
  have right: "fmul (Finite sk km) (convert s c1 c2 (Finite sx xm))
      = Finite (sk \<noteq> ((sx \<noteq> s1) \<noteq> s2)) w3"
    by (simp only: conv f1 f2 f3)
  have sign: "(((sk \<noteq> sx) \<noteq> s1) \<noteq> s2) = (sk \<noteq> ((sx \<noteq> s1) \<noteq> s2))" by blast
  \<comment> \<open>both sides are the exact value up to three roundings\<close>
  define E where "E = km * xm / r1 * r2"
  have E0: "0 \<le> E" using kpos xpos r1pos r2pos by (simp add: E_def)
  have E': "xm / r1 * r2 * km = E" by (simp add: E_def)
  have c2: "m1 / r1 * (1 - 1 / 2 ^ 53) \<le> m2" "m2 \<le> m1 / r1 * (1 + 1 / 2 ^ 53)"
    using band_div [of m1 "1 - 1 / 2 ^ 53" v1 "1 + 1 / 2 ^ 53" r1] a1(4,5) r1pos
    by (simp_all only: m2_def)
  note c3 = band_round [OF c2 a2(4,5) L0 U0]
  note c4 = band_scale [OF c3 less_imp_le [OF r2pos], folded m3_def]
  note c5 = band_round [OF c4 a3(4,5) L0 U0, unfolded m1_def, folded E_def]
  have d2: "xm / r1 * r2 * (1 - 1 / 2 ^ 53) \<le> n2" "n2 \<le> xm / r1 * r2 * (1 + 1 / 2 ^ 53)"
    using band_scale [of n1 "1 - 1 / 2 ^ 53" w1 "1 + 1 / 2 ^ 53" r2] b1(4,5) r2pos
    by (simp_all only: n2_def n1_def)
  note d3 = band_round [OF d2 b2(4,5) L0 U0]
  note d4 = band_scale [OF d3 less_imp_le [OF kpos], folded n3_def]
  note d5 = band_round [OF d4 b3(4,5) L0 U0, unfolded E']
  have "\<bar>v3 - w3\<bar> \<le> E / 2 ^ 50"
    using E0 c5 d5 by (rule three_roundings)
  then have bound: "\<bar>v3 - w3\<bar> \<le> (km * xm / r1 * r2) / 2 ^ 50"
    by (simp only: E_def)
  have right': "fmul (Finite sk km) (convert s c1 c2 (Finite sx xm))
      = Finite (((sk \<noteq> sx) \<noteq> s1) \<noteq> s2) w3"
    by (simp only: right sign)
  from left right' bound show ?thesis by (intro exI conjI)
qed

theorem C10_scaling_within_rounding_witness:
  "Rates odd_rates ''XTS'' = Some (Finite False 10) \<and>
   Rates odd_rates ''EUR'' = Some (Finite False 1) \<and>
   2 powi (- 200) \<le> (10::rat) \<and> (10::rat) \<le> 2 powi 200 \<and>
   2 powi (- 200) \<le> (1::rat) \<and> (1::rat) \<le> 2 powi 200 \<and>
   2 powi (- 200) \<le> (3::rat) \<and> (3::rat) \<le> 2 powi 200 \<and>
   (\<exists>sg l r.
      convert odd_rates ''XTS'' ''EUR'' (fmul (Finite False 3) (Finite False 1)) = Finite sg l \<and>
      fmul (Finite False 3) (convert odd_rates ''XTS'' ''EUR'' (Finite False 1)) = Finite sg r \<and>
      \<bar>l - r\<bar> \<le> (3 * 1 / 10 * 1) / 2 ^ 50)"
proof -
  have a: "Rates odd_rates ''XTS'' = Some (Finite False 10)"
    by (simp add: odd_rates_def)
  have b: "Rates odd_rates ''EUR'' = Some (Finite False 1)"
    by (simp add: odd_rates_def)
  have c: "2 powi (- 200) \<le> (10::rat)" and d: "(10::rat) \<le> 2 powi 200"
    by simp_all
  have e: "2 powi (- 200) \<le> (1::rat)" and f: "(1::rat) \<le> 2 powi 200"
    by simp_all
  have g: "2 powi (- 200) \<le> (3::rat)" and h: "(3::rat) \<le> 2 powi 200"
    by simp_all
  note t = C10_scaling_within_rounding [OF a b c d e f g h e f, of False False]
  from a b c d e f g h t show ?thesis by (intro conjI)
qed

text \<open>
  C10 as stated fails: with the rates 10 and 1, the conversion of \<open>3 * 1\<close> is the
  float64 nearest to 0.3, and 3 times the conversion of 1 is the next float64 above it.
\<close>

theorem C10_scaling_is_not_exact:
  "convert odd_rates ''XTS'' ''EUR'' (fmul (Finite False 3) (Finite False 1))
     = Finite False (5404319552844595 / 18014398509481984) \<and>
   fmul (Finite False 3) (convert odd_rates ''XTS'' ''EUR'' (Finite False 1))
     = Finite False (1351079888211149 / 4503599627370496) \<and>
   convert odd_rates ''XTS'' ''EUR'' (fmul (Finite False 3) (Finite False 1))
     \<noteq> fmul (Finite False 3) (convert odd_rates ''XTS'' ''EUR'' (Finite False 1))"
proof -
  have r: "rate odd_rates ''XTS'' = Finite False 10" "rate odd_rates ''EUR'' = Finite False 1"
    by (simp_all add: rate_def odd_rates_def)
  have a: "convert odd_rates ''XTS'' ''EUR'' (fmul (Finite False 3) (Finite False 1))
     = Finite False (5404319552844595 / 18014398509481984)"
    by (simp only: convert_def Let_def r mul_3_1 div_3_10 three_tenths_times_one)
  have b: "fmul (Finite False 3) (convert odd_rates ''XTS'' ''EUR'' (Finite False 1))
     = Finite False (1351079888211149 / 4503599627370496)"
    by (simp only: convert_def Let_def r div_1_10 tenth_times_one three_times_tenth)
  have c: "convert odd_rates ''XTS'' ''EUR'' (fmul (Finite False 3) (Finite False 1))
     \<noteq> fmul (Finite False 3) (convert odd_rates ''XTS'' ''EUR'' (Finite False 1))"
    by (simp only: a b) simp
  from a b c show ?thesis by (intro conjI)
qed

end
